theory Spec2Isabelle
  imports Complex_Main
begin

section \<open>The decompression planner of dekodek (deco-planner.service.ts)\<close>

text \<open>
  The planner is the TypeScript class \<open>DecoPlanner\<close>. Its numbers are JavaScript
  numbers; the model below takes them as exact reals, so rounding of the IEEE doubles is
  not part of it. A division whose divisor is zero gives \<open>Infinity\<close> or \<open>NaN\<close> in
  JavaScript; no real stands for either, so every such division is a branch of the model
  that ends in the value \<open>Inl NonFinite\<close>.

  The fields the constructor assigns and nothing else writes are the record
  \<open>DecoPlanner\<close>; the two fields that \<open>update\<close> mutates (\<open>tissues\<close> and \<open>log\<close>) are the
  record \<open>state\<close>, passed through every call and returned updated. The three constant
  arrays of the class (\<open>hl\<close>, \<open>a\<close>, \<open>b\<close>) and the constant field \<open>dt\<close> are constants
  of the theory; \<open>a\<close> and \<open>b\<close> are named \<open>coef_a\<close> and \<open>coef_b\<close>, and the field
  \<open>log\<close> is named \<open>divelog\<close>, since \<open>log\<close> is the logarithm of HOL.
\<close>

datatype error = NonFinite

record DiveLog =
  log_time :: "real list"
  log_depth :: "real list"
  log_tissues :: "real list list"
  log_cons :: real
  log_ppo2 :: "real list"

record DecoPlanner =
  depth :: real
  bottomTime :: real
  vUp :: real
  sac :: real
  tankV :: real
  pDep :: real
  gfLow :: real
  gfHigh :: real
  fO2Bottom :: real
  fN2Bottom :: real
  fO2Deco :: real
  fN2Deco :: real

record state =
  tissues :: "real list"
  divelog :: DiveLog

definition dt :: real where
  "dt = 0.1"

text \<open>The ZH-L16C coefficients: half-lives, and the coefficients \<open>a\<close> and \<open>b\<close>.\<close>

definition hl :: "real list" where
  "hl = [4.0, 5.0, 8.0, 12.5, 18.5, 27.0, 38.3, 54.3, 77.0, 109.0, 146.0, 187.0, 239.0,
         305.0, 390.0, 498.0]"

definition coef_a :: "real list" where
  "coef_a = [1.2599, 1.0000, 0.8618, 0.7562, 0.6667, 0.5600, 0.4947, 0.4500, 0.4187,
             0.3798, 0.3497, 0.3223, 0.2850, 0.2737, 0.2523, 0.2327]"

definition coef_b :: "real list" where
  "coef_b = [0.5050, 0.6314, 0.7222, 0.7825, 0.8126, 0.8434, 0.8693, 0.8910, 0.9092,
             0.9222, 0.9319, 0.9403, 0.9477, 0.9544, 0.9602, 0.9653]"

text \<open>The field initialisers of \<open>tissues\<close> and \<open>log\<close>.\<close>

definition init_state :: state where
  "init_state =
     \<lparr> tissues = [0.79, 0.79, 0.79, 0.79, 0.79, 0.79, 0.79, 0.79, 0.79, 0.79, 0.79, 0.79,
                  0.79, 0.79, 0.79, 0.79],
       divelog = \<lparr> log_time = [], log_depth = [],
                   log_tissues = [[], [], [], [], [], [], [], [], [], [], [], [], [], [], [], []],
                   log_cons = 0, log_ppo2 = [] \<rparr> \<rparr>"

text \<open>
  The constructor. Its last parameter is optional, and the test \<open>fO2Deco ? ... : ...\<close>
  takes the bottom gas also when the parameter is the number 0.
\<close>

definition constructor ::
  "real \<Rightarrow> real \<Rightarrow> real \<Rightarrow> real \<Rightarrow> real \<Rightarrow> real \<Rightarrow> real \<Rightarrow> real \<Rightarrow> real \<Rightarrow> real option \<Rightarrow> DecoPlanner"
where
  "constructor depth' bottomTime' vUp' sac' tankV' pDep' gfLow' gfHigh' fO2Bottom' fO2Deco' =
     (let fO2B = fO2Bottom' / 100.0;
          fO2D = (case fO2Deco' of
                    None \<Rightarrow> fO2B
                  | Some x \<Rightarrow> if x \<noteq> 0 then x / 100.0 else fO2B)
      in \<lparr> depth = depth', bottomTime = bottomTime', vUp = vUp', sac = sac', tankV = tankV',
           pDep = pDep', gfLow = gfLow' / 100.0, gfHigh = gfHigh' / 100.0,
           fO2Bottom = fO2B, fN2Bottom = 1.0 - fO2B, fO2Deco = fO2D, fN2Deco = 1.0 - fO2D \<rparr>)"

subsection \<open>getSwitchDepth and update\<close>

definition getSwitchDepth :: "DecoPlanner \<Rightarrow> error + real" where
  "getSwitchDepth p =
     (if fO2Deco p = 0 then Inl NonFinite
      else Inr ((1.6 / fO2Deco p - 1.0) * 10.0))"

text \<open>
  Line 66 of the source, the gas that \<open>update\<close> breathes:
  \<open>(isDeco && d <= this.getSwitchDepth()) ? this.fN2Deco : this.fN2Bottom\<close>.
  The switch depth is computed only when \<open>isDeco\<close> holds. With a deco gas of 0 percent
  oxygen the source divides by zero there, gets \<open>Infinity\<close>, and goes on with the deco gas
  at every depth; the model ends in \<open>NonFinite\<close>.
\<close>

definition activeN2 :: "DecoPlanner \<Rightarrow> real \<Rightarrow> bool \<Rightarrow> error + real" where
  "activeN2 p d isDeco =
     (if isDeco then
        (case getSwitchDepth p of
           Inl e \<Rightarrow> Inl e
         | Inr sd \<Rightarrow> Inr (if d \<le> sd then fN2Deco p else fN2Bottom p))
      else Inr (fN2Bottom p))"

text \<open>The loop \<open>for (let i = 0; i < 16; i++)\<close> of \<open>update\<close>, from index \<open>i\<close> on.\<close>

function update_loop :: "real \<Rightarrow> nat \<Rightarrow> state \<Rightarrow> state" where
  "update_loop pAlv i s =
     (if i < 16 then
        (let k = ln 2 / hl ! i;
             v = pAlv + (tissues s ! i - pAlv) * exp (- k * dt);
             s1 = s\<lparr>tissues := (tissues s)[i := v]\<rparr>;
             s2 = s1\<lparr>divelog := (divelog s1)
                    \<lparr>log_tissues := (log_tissues (divelog s1))
                                       [i := log_tissues (divelog s1) ! i @ [v]]\<rparr>\<rparr>
         in update_loop pAlv (i + 1) s2)
      else s)"
  by pat_completeness auto
termination
  by (relation "measure (\<lambda>(pAlv, i, s). 16 - i)") auto

definition update :: "DecoPlanner \<Rightarrow> real \<Rightarrow> real \<Rightarrow> bool \<Rightarrow> state \<Rightarrow> error + state" where
  "update p d t isDeco s =
     (let pAmb = d / 10.0 + 1.0 in
      case activeN2 p d isDeco of
        Inl e \<Rightarrow> Inl e
      | Inr fN2 \<Rightarrow>
          (let fO2 = 1.0 - fN2;
               s1 = s\<lparr>divelog := (divelog s)
                      \<lparr>log_cons := log_cons (divelog s) + sac p * pAmb * dt,
                       log_ppo2 := log_ppo2 (divelog s) @ [pAmb * fO2]\<rparr>\<rparr>;
               pAlv = (pAmb - 0.0627) * fN2;
               s2 = update_loop pAlv 0 s1;
               s3 = s2\<lparr>divelog := (divelog s2)
                      \<lparr>log_time := log_time (divelog s2) @ [t],
                       log_depth := log_depth (divelog s2) @ [d]\<rparr>\<rparr>
           in Inr s3))"

subsection \<open>getCeiling\<close>

text \<open>Lines 87 and 88: the gradient factor at the current depth.\<close>

definition currentGf :: "DecoPlanner \<Rightarrow> real \<Rightarrow> real" where
  "currentGf p currentDepth =
     (let gfSlope = (gfHigh p - gfLow p) / (0 - depth p)
      in gfHigh p + gfSlope * currentDepth)"

text \<open>The loop that fills \<open>ceilings\<close>, from index \<open>i\<close> on.\<close>

function ceilings_loop :: "real \<Rightarrow> nat \<Rightarrow> state \<Rightarrow> real list \<Rightarrow> error + real list" where
  "ceilings_loop gf i s ceilings =
     (if i < 16 then
        (let num = tissues s ! i - coef_a ! i * gf;
             den = gf / coef_b ! i + 1.0 - gf
         in if den = 0 then Inl NonFinite
            else ceilings_loop gf (i + 1) s (ceilings @ [num / den]))
      else Inr ceilings)"
  by pat_completeness auto
termination
  by (relation "measure (\<lambda>(gf, i, s, ceilings). 16 - i)") auto

text \<open>\<open>Math.max(...xs)\<close>; of no argument it is \<open>-Infinity\<close>.\<close>

fun Math_max :: "real list \<Rightarrow> error + real" where
  "Math_max [] = Inl NonFinite"
| "Math_max (x # xs) = Inr (fold max xs x)"

definition getCeiling :: "DecoPlanner \<Rightarrow> state \<Rightarrow> real \<Rightarrow> error + real" where
  "getCeiling p s currentDepth =
     (if depth p = 0 then Inl NonFinite
      else
        (case ceilings_loop (currentGf p currentDepth) 0 s [] of
           Inl e \<Rightarrow> Inl e
         | Inr ceilings \<Rightarrow>
             (case Math_max ceilings of
                Inl e \<Rightarrow> Inl e
              | Inr m \<Rightarrow> Inr (max 0 ((m - 1.0) * 10.0)))))"

subsection \<open>run\<close>

text \<open>The first loop of \<open>run\<close> (descent), from the current \<open>currD\<close> and \<open>t\<close>.\<close>

function descent :: "DecoPlanner \<Rightarrow> real \<Rightarrow> real \<Rightarrow> state \<Rightarrow> error + real \<times> real \<times> state" where
  "descent p currD t s =
     (if currD < depth p then
        (case update p currD t False s of
           Inl e \<Rightarrow> Inl e
         | Inr s' \<Rightarrow> descent p (currD + 15.0 * dt) (t + dt) s')
      else Inr (currD, t, s))"
  by pat_completeness auto
termination
proof (relation "measure (\<lambda>(p, currD, t, s). nat \<lceil>(depth p - currD) / (15.0 * dt)\<rceil>)")
  show "wf (measure (\<lambda>(p, currD, t, s). nat \<lceil>(depth p - currD) / (15.0 * dt)\<rceil>))"
    by simp
next
  fix p :: DecoPlanner and currD t :: real and s x2 :: state
  assume lt: "currD < depth p"
  have "(depth p - (currD + 15.0 * dt)) / (15.0 * dt) = (depth p - currD) / (15.0 * dt) - 1"
    by (simp add: dt_def field_simps)
  then have "\<lceil>(depth p - (currD + 15.0 * dt)) / (15.0 * dt)\<rceil> = \<lceil>(depth p - currD) / (15.0 * dt) - 1\<rceil>"
    by (rule arg_cong)
  also have "\<dots> = \<lceil>(depth p - currD) / (15.0 * dt)\<rceil> - 1"
    by (rule ceiling_diff_one)
  finally have step: "\<lceil>(depth p - (currD + 15.0 * dt)) / (15.0 * dt)\<rceil>
      = \<lceil>(depth p - currD) / (15.0 * dt)\<rceil> - 1" .
  have pos: "0 < \<lceil>(depth p - currD) / (15.0 * dt)\<rceil>"
    using lt by (simp add: dt_def)
  show "((p, currD + 15.0 * dt, t + dt, x2), (p, currD, t, s))
      \<in> measure (\<lambda>(p, currD, t, s). nat \<lceil>(depth p - currD) / (15.0 * dt)\<rceil>)"
    using step pos by simp
qed

text \<open>
  The second loop (bottom), with \<open>tEndBottom\<close> computed before it. The clock \<open>t\<close> is an
  exact real here, so the loop makes \<open>\<lceil>bottomTime / 0.1\<rceil>\<close> passes. The clock of the source
  is a double that accumulates the rounding of \<open>t += 0.1\<close>, and its loop can make one pass
  more: after a descent of two passes and with a bottom time of 0.4 the clock reaches 0.6
  while \<open>tEndBottom\<close> is 0.6000000000000001.
\<close>

function bottom :: "DecoPlanner \<Rightarrow> real \<Rightarrow> real \<Rightarrow> state \<Rightarrow> error + real \<times> state" where
  "bottom p tEndBottom t s =
     (if t < tEndBottom then
        (case update p (depth p) t False s of
           Inl e \<Rightarrow> Inl e
         | Inr s' \<Rightarrow> bottom p tEndBottom (t + dt) s')
      else Inr (t, s))"
  by pat_completeness auto
termination
proof (relation "measure (\<lambda>(p, tEndBottom, t, s). nat \<lceil>(tEndBottom - t) / dt\<rceil>)")
  show "wf (measure (\<lambda>(p, tEndBottom, t, s). nat \<lceil>(tEndBottom - t) / dt\<rceil>))"
    by simp
next
  fix p :: DecoPlanner and tEndBottom t :: real and s x2 :: state
  assume lt: "t < tEndBottom"
  have "(tEndBottom - (t + dt)) / dt = (tEndBottom - t) / dt - 1"
    by (simp add: dt_def field_simps)
  then have "\<lceil>(tEndBottom - (t + dt)) / dt\<rceil> = \<lceil>(tEndBottom - t) / dt - 1\<rceil>"
    by (rule arg_cong)
  also have "\<dots> = \<lceil>(tEndBottom - t) / dt\<rceil> - 1"
    by (rule ceiling_diff_one)
  finally have step: "\<lceil>(tEndBottom - (t + dt)) / dt\<rceil> = \<lceil>(tEndBottom - t) / dt\<rceil> - 1" .
  have pos: "0 < \<lceil>(tEndBottom - t) / dt\<rceil>"
    using lt by (simp add: dt_def)
  show "((p, tEndBottom, t + dt, x2), (p, tEndBottom, t, s))
      \<in> measure (\<lambda>(p, tEndBottom, t, s). nat \<lceil>(tEndBottom - t) / dt\<rceil>)"
    using step pos by simp
qed

text \<open>Line 121: the ceiling rounded up to a multiple of three metres.\<close>

definition nextStop :: "real \<Rightarrow> real" where
  "nextStop ceil = of_int \<lceil>ceil / 3.0\<rceil> * 3.0"

text \<open>Lines 123 to 128: the depth after one step of the ascent.\<close>

definition ascent_move :: "DecoPlanner \<Rightarrow> real \<Rightarrow> real \<Rightarrow> real" where
  "ascent_move p currD stop =
     (if currD > stop then
        (let currD1 = currD - vUp p * dt
         in if currD1 < stop then stop else currD1)
      else stop)"

text \<open>
  Lines 120 to 130: one pass of the body of the ascent loop up to the call of \<open>update\<close>.
  It gives the new depth and the new state.
\<close>

definition ascent_step :: "DecoPlanner \<Rightarrow> real \<Rightarrow> real \<Rightarrow> state \<Rightarrow> error + real \<times> state" where
  "ascent_step p currD t s =
     (case getCeiling p s currD of
        Inl e \<Rightarrow> Inl e
      | Inr ceil \<Rightarrow>
          (let currD' = ascent_move p currD (nextStop ceil)
           in case update p currD' t True s of
                Inl e \<Rightarrow> Inl e
              | Inr s' \<Rightarrow> Inr (currD', s')))"

text \<open>
  The third loop (ascent). Nothing in the source bounds the number of its passes, so the
  model counts them: \<open>ascent n\<close> makes at most \<open>n\<close> passes and is \<open>None\<close> when the loop has
  not ended by then. The count is the model's, not the program's: the loop ends by its
  condition \<open>currD > 0\<close> or by its \<open>break\<close>, and by nothing else.
\<close>

fun ascent :: "nat \<Rightarrow> DecoPlanner \<Rightarrow> real \<Rightarrow> real \<Rightarrow> state \<Rightarrow> (error + state) option" where
  "ascent n p currD t s =
     (if currD > 0 then
        (case n of
           0 \<Rightarrow> None
         | Suc m \<Rightarrow>
             (case ascent_step p currD t s of
                Inl e \<Rightarrow> Some (Inl e)
              | Inr (currD', s') \<Rightarrow>
                  (if currD' = 0 then
                     (case getCeiling p s' 0 of
                        Inl e \<Rightarrow> Some (Inl e)
                      | Inr c0 \<Rightarrow>
                          if c0 \<le> 0 then Some (Inr s')
                          else ascent m p currD' (t + dt) s')
                   else ascent m p currD' (t + dt) s')))
      else Some (Inr s))"

text \<open>\<open>run\<close>, with the state it ends in; \<open>run\<close> itself returns the log of that state.\<close>

definition run_state :: "nat \<Rightarrow> DecoPlanner \<Rightarrow> (error + state) option" where
  "run_state n p =
     (case descent p 0 0.0 init_state of
        Inl e \<Rightarrow> Some (Inl e)
      | Inr (currD, t, s) \<Rightarrow>
          (let tEndBottom = t + bottomTime p
           in case bottom p tEndBottom t s of
                Inl e \<Rightarrow> Some (Inl e)
              | Inr (t', s') \<Rightarrow> ascent n p (depth p) t' s'))"

definition run :: "nat \<Rightarrow> DecoPlanner \<Rightarrow> (error + DiveLog) option" where
  "run n p =
     (case run_state n p of
        None \<Rightarrow> None
      | Some (Inl e) \<Rightarrow> Some (Inl e)
      | Some (Inr s) \<Rightarrow> Some (Inr (divelog s)))"

text \<open>The calling layer (app.component.ts, line 91): the bottom gas's operating depth.\<close>

definition calculate_mod :: "real \<Rightarrow> real" where
  "calculate_mod fO2Bottom' = (1.6 / (fO2Bottom' / 100) - 1.0) * 10.0"

subsection \<open>Closed forms used in the proofs\<close>

text \<open>
  The definitions of this subsection are not functions of the source: they name what the
  loops above compute, and the lemmas \<open>update_eq\<close> and \<open>getCeiling_closed\<close> prove that
  the loops compute it.

  \<open>decay pAlv i x\<close> is the new pressure of compartment \<open>i\<close> (line 75), \<open>loop_body\<close> one
  pass of the loop of \<open>update\<close>, and \<open>step_state\<close> the state after one call of \<open>update\<close>
  with the inert fraction \<open>fN2\<close>. A state is well formed when it has its 16 compartments
  and its 16 series of logged pressures, as every state of a run has.
\<close>

definition decay :: "real \<Rightarrow> nat \<Rightarrow> real \<Rightarrow> real" where
  "decay pAlv i x = pAlv + (x - pAlv) * exp (- (ln 2 / hl ! i) * dt)"

definition loop_body :: "real \<Rightarrow> nat \<Rightarrow> state \<Rightarrow> state" where
  "loop_body pAlv i s =
     s\<lparr>tissues := (tissues s)[i := decay pAlv i (tissues s ! i)],
       divelog := (divelog s)
         \<lparr>log_tissues := (log_tissues (divelog s))
            [i := log_tissues (divelog s) ! i @ [decay pAlv i (tissues s ! i)]]\<rparr>\<rparr>"

definition wf_state :: "state \<Rightarrow> bool" where
  "wf_state s = (length (tissues s) = 16 \<and> length (log_tissues (divelog s)) = 16)"

definition step_state :: "DecoPlanner \<Rightarrow> real \<Rightarrow> real \<Rightarrow> real \<Rightarrow> state \<Rightarrow> state" where
  "step_state p fN2 d t s =
     (let pAmb = d / 10 + 1; pAlv = (pAmb - 0.0627) * fN2
      in \<lparr> tissues = map (\<lambda>i. decay pAlv i (tissues s ! i)) [0..<16],
           divelog =
             \<lparr> log_time = log_time (divelog s) @ [t],
               log_depth = log_depth (divelog s) @ [d],
               log_tissues =
                 map (\<lambda>i. log_tissues (divelog s) ! i @ [decay pAlv i (tissues s ! i)]) [0..<16],
               log_cons = log_cons (divelog s) + sac p * pAmb * dt,
               log_ppo2 = log_ppo2 (divelog s) @ [pAmb * (1 - fN2)] \<rparr> \<rparr>)"

text \<open>Line 93 and line 94: the divisor and the quotient of compartment \<open>i\<close>.\<close>

definition den :: "real \<Rightarrow> nat \<Rightarrow> real" where
  "den gf i = gf / coef_b ! i + 1 - gf"

definition comp_ceiling :: "real \<Rightarrow> state \<Rightarrow> nat \<Rightarrow> real" where
  "comp_ceiling gf s i = (tissues s ! i - coef_a ! i * gf) / den gf i"


subsection \<open>Inputs used as examples\<close>

text \<open>The planner the calling layer builds from its initial field values.\<close>

definition example_planner :: DecoPlanner where
  "example_planner = constructor 40 20 10 19.0 15 200 30 70 32 None"

text \<open>The factor \<open>exp (- k * dt)\<close> of compartment \<open>i\<close> (lines 74 and 75).\<close>

definition efac :: "nat \<Rightarrow> real" where
  "efac i = exp (- (ln 2 / hl ! i) * dt)"

text \<open>
  \<open>log_shape n t s\<close>: the log of \<open>s\<close> holds \<open>n\<close> samples, taken at the times
  \<open>0, dt, ..., (n - 1) dt\<close>, and the clock \<open>t\<close> of \<open>run\<close> stands at \<open>n dt\<close>.
\<close>

definition log_shape :: "nat \<Rightarrow> real \<Rightarrow> state \<Rightarrow> bool" where
  "log_shape n t s =
     (t = real n * dt \<and>
      log_time (divelog s) = map (\<lambda>k. real k * dt) [0..<n] \<and>
      length (log_depth (divelog s)) = n \<and>
      length (log_ppo2 (divelog s)) = n \<and>
      length (log_tissues (divelog s)) = 16 \<and>
      (\<forall>i<16. length (log_tissues (divelog s) ! i) = n))"

text \<open>
  Dives to 1 m for at most 0.1 min, with an ascent rate of at least 10 m/min: one pass of
  each loop. \<open>shallow_s1\<close>, \<open>shallow_s2\<close> and \<open>shallow_s3\<close> are the states after the pass
  of the descent, of the bottom and of the ascent. \<open>small_planner\<close> is such a dive on air,
  \<open>deco_planner\<close> the same dive with a deco gas of 50 percent oxygen.
\<close>

definition shallow_dive :: "DecoPlanner \<Rightarrow> bool" where
  "shallow_dive p =
     (depth p = 1 \<and> 0 < bottomTime p \<and> bottomTime p \<le> 1/10 \<and> 10 \<le> vUp p \<and>
      0 \<le> gfLow p \<and> 0 \<le> gfHigh p \<and> fN2Bottom p \<le> 24/25 \<and> fN2Deco p \<le> 1 \<and>
      0 < fO2Deco p \<and> fO2Deco p \<le> 8/5)"

definition shallow_s1 :: "DecoPlanner \<Rightarrow> state" where
  "shallow_s1 p = step_state p (fN2Bottom p) 0 0 init_state"

definition shallow_s2 :: "DecoPlanner \<Rightarrow> state" where
  "shallow_s2 p = step_state p (fN2Bottom p) 1 (1/10) (shallow_s1 p)"

definition shallow_s3 :: "DecoPlanner \<Rightarrow> state" where
  "shallow_s3 p = step_state p (fN2Deco p) 0 (2/10) (shallow_s2 p)"

definition small_planner :: DecoPlanner where
  "small_planner = constructor 1 (1/10) 10 19.0 15 200 30 70 21 None"

definition deco_planner :: DecoPlanner where
  "deco_planner = constructor 1 (1/10) 10 19.0 15 200 30 70 21 (Some 50)"

text \<open>
  The parameter sets the spec calls valid (its sections 6 and 7), in the units of the
  constructor: percentages for the gradient factors and the oxygen fractions. The source
  has no such check.
\<close>

definition valid_parameters ::
  "real \<Rightarrow> real \<Rightarrow> real \<Rightarrow> real \<Rightarrow> real \<Rightarrow> real \<Rightarrow> real \<Rightarrow> real \<Rightarrow> real \<Rightarrow> real option \<Rightarrow> bool"
where
  "valid_parameters depth' bottomTime' vUp' sac' tankV' pDep' gfLow' gfHigh' fO2Bottom' fO2Deco' =
     (0 < depth' \<and> 0 < bottomTime' \<and> 0 < vUp' \<and> 0 < sac' \<and> 0 < tankV' \<and> 0 < pDep' \<and>
      0 < gfLow' \<and> gfLow' \<le> gfHigh' \<and> gfHigh' \<le> 100 \<and>
      0 < fO2Bottom' \<and> fO2Bottom' \<le> 100 \<and>
      (case fO2Deco' of None \<Rightarrow> True | Some x \<Rightarrow> 0 < x \<and> x \<le> 100))"

text \<open>
  A parameter set that is invalid four times over: a negative SAC rate, a tank of volume
  0, \<open>gfLow > gfHigh\<close>, and 150 percent oxygen.
\<close>

definition invalid_planner :: DecoPlanner where
  "invalid_planner = constructor 1 (1/10) 10 (-19) 0 200 90 30 150 None"

text \<open>The dive of \<open>small_planner\<close> with half its bottom time.\<close>

definition half_planner :: DecoPlanner where
  "half_planner = constructor 1 (1/20) 10 19.0 15 200 30 70 21 None"

text \<open>
  A valid parameter set on which the ascent never ends: 30 m for 4 min on a gas of 10
  percent oxygen, with both gradient factors at 1 percent.
\<close>

definition hold_planner :: DecoPlanner where
  "hold_planner = constructor 30 4 10 19.0 15 200 1 1 10 None"

text \<open>
  A valid parameter set on which the ascent ends at the surface with a positive ceiling:
  1.2 m for 16 min on a gas of 1 percent oxygen, gradient factors of 1 and 69 percent, and
  an ascent rate of 100000 m/min.
\<close>

definition surface_planner :: DecoPlanner where
  "surface_planner = constructor (6/5) 16 100000 19.0 15 200 1 69 1 None"

text \<open>\<open>tissues_in lo hi s\<close>: every compartment of \<open>s\<close> is between \<open>lo\<close> and \<open>hi\<close>.\<close>

definition tissues_in :: "real \<Rightarrow> real \<Rightarrow> state \<Rightarrow> bool" where
  "tissues_in lo hi s = (\<forall>i<16. lo \<le> tissues s ! i \<and> tissues s ! i \<le> hi)"

text \<open>The dive of \<open>surface_planner\<close>, 10 cm deeper.\<close>

definition deeper_planner :: DecoPlanner where
  "deeper_planner = constructor (13/10) 16 100000 19.0 15 200 1 69 1 None"

text \<open>A dive to 1 m for 0.3 min with both gradient factors at 70 percent.\<close>

definition flat_planner :: DecoPlanner where
  "flat_planner = constructor 1 (3/10) 10 19.0 15 200 70 70 21 None"

subsection \<open>Conditions of the statements on consumption\<close>

text \<open>
  The definitions of this subsection are not functions of the source either: they are
  conditions on the parameters, and a relation between two runs, under which the
  consumption of two runs is compared.

  \<open>tissue_bound p\<close> is the largest inert pressure a compartment can reach in a dive that
  stays above its target depth: the 0.79 of the start, or the alveolar pressure of the
  bottom gas at the target depth. \<open>ordered_gases p\<close> holds when the parameters are not
  negative, \<open>gfLow\<close> is not above \<open>gfHigh\<close>, and the deco gas has no more inert gas than the
  bottom gas. \<open>stops_above_bottom p\<close> holds when the ceiling of a compartment at the
  bound is not below the last multiple of 3 m above the target depth, so that no stop is
  deeper than the dive.
\<close>

definition tissue_bound :: "DecoPlanner \<Rightarrow> real" where
  "tissue_bound p = max (79/100) ((depth p / 10 + 1 - 0.0627) * fN2Bottom p)"

definition ordered_gases :: "DecoPlanner \<Rightarrow> bool" where
  "ordered_gases p =
     (0 < depth p \<and> 0 \<le> sac p \<and> 0 \<le> vUp p \<and> 0 \<le> gfLow p \<and> gfLow p \<le> gfHigh p \<and>
      0 \<le> fN2Deco p \<and> fN2Deco p \<le> fN2Bottom p \<and> fO2Deco p \<noteq> 0)"

definition stops_above_bottom :: "DecoPlanner \<Rightarrow> bool" where
  "stops_above_bottom p = ((tissue_bound p - 1) * 10 \<le> of_int \<lfloor>depth p / 3\<rfloor> * 3)"

text \<open>
  \<open>dominated p g c s c' s'\<close> relates two points of two ascents: the first is at the depth
  \<open>c\<close> in the state \<open>s\<close>, the second at the depth \<open>c'\<close>, not above \<open>c\<close>, in the state \<open>s'\<close>;
  the second has consumed at least \<open>g\<close> more; its gradient factor is not above that of the
  first (they are equal, or the second is above the target depth and its compartments
  are within \<open>tissue_bound\<close>); and either every compartment of the first is at most that
  of the second, or no compartment of the first is above 1 bar and none can get there.
\<close>

definition dominated :: "DecoPlanner \<Rightarrow> real \<Rightarrow> real \<Rightarrow> state \<Rightarrow> real \<Rightarrow> state \<Rightarrow> bool" where
  "dominated p g c s c' s' =
     (wf_state s \<and> wf_state s' \<and> 0 \<le> c \<and> c \<le> c' \<and>
      (\<forall>i<16. 0 \<le> tissues s ! i) \<and> (\<forall>i<16. 0 \<le> tissues s' ! i) \<and>
      (gfLow p = gfHigh p \<or>
       (stops_above_bottom p \<and> c' \<le> depth p \<and> (\<forall>i<16. tissues s' ! i \<le> tissue_bound p))) \<and>
      ((\<forall>i<16. tissues s ! i \<le> tissues s' ! i) \<or>
       ((depth p / 10 + 1 - 0.0627) * fN2Bottom p \<le> 1 \<and> c \<le> depth p \<and>
        (\<forall>i<16. tissues s ! i \<le> 1))) \<and>
      log_cons (divelog s) + g \<le> log_cons (divelog s'))"

section \<open>Properties\<close>

declare update_loop.simps [simp del] ceilings_loop.simps [simp del] descent.simps [simp del]
  bottom.simps [simp del] ascent.simps [simp del]

subsection \<open>One call of update\<close>



lemma update_loop_unfold:
  "update_loop pAlv i s = (if i < 16 then update_loop pAlv (i + 1) (loop_body pAlv i s) else s)"
  by (subst update_loop.simps) (simp add: Let_def loop_body_def decay_def)

lemma update_loop_rule:
  assumes "P i s"
    and "\<And>i s. i < 16 \<Longrightarrow> P i s \<Longrightarrow> P (i + 1) (loop_body pAlv i s)"
  shows "\<exists>k. P k (update_loop pAlv i s) \<and> \<not> k < 16"
  using assms
proof (induction pAlv i s rule: update_loop.induct)
  case (1 pAlv i s)
  show ?case
  proof (cases "i < 16")
    case True
    have "P (i + 1) (loop_body pAlv i s)"
      using True "1.prems" by blast
    then have "\<exists>k. P k (update_loop pAlv (i + 1) (loop_body pAlv i s)) \<and> \<not> k < 16"
      using "1.IH"[OF True refl refl refl refl] "1.prems"(2) by (simp add: loop_body_def decay_def)
    then show ?thesis using True by (subst update_loop_unfold) simp
  next
    case False
    then show ?thesis using "1.prems" by (subst update_loop_unfold) auto
  qed
qed

lemma update_loop_closed:
  assumes "wf_state s"
  shows "update_loop pAlv 0 s =
     s\<lparr>tissues := map (\<lambda>i. decay pAlv i (tissues s ! i)) [0..<16],
       divelog := (divelog s)
         \<lparr>log_tissues :=
            map (\<lambda>i. log_tissues (divelog s) ! i @ [decay pAlv i (tissues s ! i)]) [0..<16]\<rparr>\<rparr>"
proof -
  define P where "P = (\<lambda>i s'. i \<le> 16 \<and> s' =
     s\<lparr>tissues := map (\<lambda>j. decay pAlv j (tissues s ! j)) [0..<i] @ drop i (tissues s),
       divelog := (divelog s)
         \<lparr>log_tissues :=
            map (\<lambda>j. log_tissues (divelog s) ! j @ [decay pAlv j (tissues s ! j)]) [0..<i]
              @ drop i (log_tissues (divelog s))\<rparr>\<rparr>)"
  have init: "P 0 s" by (simp add: P_def)
  have stepP: "P (i + 1) (loop_body pAlv i s')" if "i < 16" "P i s'" for i s'
  proof -
    have i16: "i + 1 \<le> 16" using that by simp
    have len1: "i < length (tissues s)" and len2: "i < length (log_tissues (divelog s))"
      using assms that by (simp_all add: wf_state_def)
    have t: "(map (\<lambda>j. decay pAlv j (tissues s ! j)) [0..<i] @ drop i (tissues s)) ! i = tissues s ! i"
      using len1 by (simp add: nth_append)
    have l: "(map (\<lambda>j. log_tissues (divelog s) ! j @ [decay pAlv j (tissues s ! j)]) [0..<i]
              @ drop i (log_tissues (divelog s))) ! i = log_tissues (divelog s) ! i"
      using len2 by (simp add: nth_append)
    have u1: "(map f [0..<i] @ drop i xs)[i := v] = map f [0..<i] @ v # drop (Suc i) xs"
      if "i < length xs" for f :: "nat \<Rightarrow> 'a" and xs v
      using that by (simp add: list_update_append Cons_nth_drop_Suc[symmetric] del: upt_Suc)
    show ?thesis
      using that(2) i16 t l u1[OF len1] u1[OF len2]
      by (simp add: P_def loop_body_def)
  qed
  obtain k where k: "P k (update_loop pAlv 0 s)" "\<not> k < 16"
    using update_loop_rule[of P 0 s pAlv, OF init stepP] by blast
  then have "k = 16" by (simp add: P_def)
  then show ?thesis using k(1) assms by (simp add: P_def wf_state_def)
qed

lemma update_eq:
  assumes "wf_state s"
  shows "update p d t isDeco s =
     (case activeN2 p d isDeco of Inl e \<Rightarrow> Inl e | Inr fN2 \<Rightarrow> Inr (step_state p fN2 d t s))"
proof (cases "activeN2 p d isDeco")
  case (Inl e)
  then show ?thesis by (simp add: update_def)
next
  case (Inr fN2)
  have wf1: "wf_state (s\<lparr>divelog := (divelog s)
                      \<lparr>log_cons := log_cons (divelog s) + sac p * (d / 10 + 1) * dt,
                       log_ppo2 := log_ppo2 (divelog s) @ [(d / 10 + 1) * (1 - fN2)]\<rparr>\<rparr>)"
    using assms by (simp add: wf_state_def)
  show ?thesis
    using Inr by (simp add: update_def Let_def update_loop_closed[OF wf1] step_state_def)
qed

subsection \<open>getCeiling\<close>

lemma ceilings_loop_unfold:
  "ceilings_loop gf i s acc =
     (if i < 16 then
        (if den gf i = 0 then Inl NonFinite
         else ceilings_loop gf (i + 1) s (acc @ [comp_ceiling gf s i]))
      else Inr acc)"
  by (subst ceilings_loop.simps) (simp add: Let_def den_def comp_ceiling_def)

lemma ceilings_loop_closed:
  "i \<le> 16 \<Longrightarrow>
   ceilings_loop gf i s acc =
     (if \<exists>j. i \<le> j \<and> j < 16 \<and> den gf j = 0 then Inl NonFinite
      else Inr (acc @ map (comp_ceiling gf s) [i..<16]))"
proof (induction "16 - i" arbitrary: i acc)
  case 0
  then have "i = 16" by simp
  then show ?case by (subst ceilings_loop_unfold) simp
next
  case (Suc n)
  then have lt: "i < 16" by simp
  show ?case
  proof (cases "den gf i = 0")
    case True
    then show ?thesis using lt by (subst ceilings_loop_unfold) auto
  next
    case False
    have ih: "ceilings_loop gf (i + 1) s (acc @ [comp_ceiling gf s i]) =
       (if \<exists>j. i + 1 \<le> j \<and> j < 16 \<and> den gf j = 0 then Inl NonFinite
        else Inr ((acc @ [comp_ceiling gf s i]) @ map (comp_ceiling gf s) [i + 1..<16]))"
      using Suc.hyps(1)[of "i + 1"] Suc.hyps(2) lt by simp
    have ex: "(\<exists>j. i \<le> j \<and> j < 16 \<and> den gf j = 0) = (\<exists>j. i + 1 \<le> j \<and> j < 16 \<and> den gf j = 0)"
    proof
      assume "\<exists>j. i \<le> j \<and> j < 16 \<and> den gf j = 0"
      then obtain j where j: "i \<le> j" "j < 16" "den gf j = 0" by blast
      then have "j \<noteq> i" using False by blast
      then have "i + 1 \<le> j" using j(1) by simp
      then show "\<exists>j. i + 1 \<le> j \<and> j < 16 \<and> den gf j = 0" using j by blast
    next
      assume "\<exists>j. i + 1 \<le> j \<and> j < 16 \<and> den gf j = 0"
      then obtain j where j: "i + 1 \<le> j" "j < 16" "den gf j = 0" by blast
      then have "i \<le> j" by simp
      then show "\<exists>j. i \<le> j \<and> j < 16 \<and> den gf j = 0" using j by blast
    qed
    have up: "[i..<16] = i # [i + 1..<16]"
      using lt by (simp add: upt_conv_Cons)
    have "ceilings_loop gf i s acc = ceilings_loop gf (i + 1) s (acc @ [comp_ceiling gf s i])"
      using lt False by (subst ceilings_loop_unfold) simp
    then show ?thesis
      by (simp only: ih ex up append_Cons append_Nil append_assoc list.map)
  qed
qed

lemma Math_max_map:
  "Math_max (map f [0..<16]) = Inr (Max (f ` {..<16}))"
proof -
  have "[0..<16] = 0 # [1..<16]" by (simp add: upt_conv_Cons)
  then have "Math_max (map f [0..<16]) = Inr (fold max (map f [1..<16]) (f 0))"
    by simp
  also have "fold max (map f [1..<16]) (f 0) = Max (set (f 0 # map f [1..<16]))"
    by (rule Max.set_eq_fold[symmetric])
  also have "set (f 0 # map f [1..<16]) = f ` {..<16}"
    by (auto simp: image_iff) (metis One_nat_def Suc_leI atLeastLessThan_iff gr0I)
  finally show ?thesis .
qed

lemma getCeiling_closed:
  "getCeiling p s d =
     (if depth p = 0 \<or> (\<exists>j<16. den (currentGf p d) j = 0) then Inl NonFinite
      else Inr (max 0 ((Max (comp_ceiling (currentGf p d) s ` {..<16}) - 1) * 10)))"
proof -
  have "(\<exists>j. 0 \<le> j \<and> j < 16 \<and> den gf j = 0) = (\<exists>j<16. den gf j = 0)" for gf
    by simp
  then show ?thesis
    by (simp add: getCeiling_def ceilings_loop_closed Math_max_map)
qed

lemma den_pos: "0 \<le> gf \<Longrightarrow> i < 16 \<Longrightarrow> 0 < den gf i"
proof -
  assume gf: "0 \<le> gf" and i: "i < 16"
  have b: "0 < coef_b ! i \<and> coef_b ! i < 1"
  proof -
    have "\<forall>x\<in>set coef_b. 0 < x \<and> x < 1" by (simp add: coef_b_def)
    moreover have "length coef_b = 16" by (simp add: coef_b_def)
    then have "coef_b ! i \<in> set coef_b" using i nth_mem[of i coef_b] by simp
    ultimately show ?thesis by blast
  qed
  then have "gf \<le> gf / coef_b ! i"
    using gf by (simp add: pos_le_divide_eq mult_left_le)
  then show ?thesis by (simp add: den_def)
qed

subsection \<open>The loops of run\<close>

lemma wf_step_state: "wf_state (step_state p fN2 d t s)"
  by (simp add: wf_state_def step_state_def Let_def)

lemma wf_init_state: "wf_state init_state"
  by (simp add: wf_state_def init_state_def)

lemma activeN2_False: "activeN2 p d False = Inr (fN2Bottom p)"
  by (simp add: activeN2_def)

lemma update_False:
  "wf_state s \<Longrightarrow> update p d t False s = Inr (step_state p (fN2Bottom p) d t s)"
  by (simp add: update_eq activeN2_False)

lemma descent_rule:
  assumes "wf_state s" and "I c t s"
    and "\<And>c t s. wf_state s \<Longrightarrow> I c t s \<Longrightarrow> c < depth p \<Longrightarrow>
           I (c + 15 * dt) (t + dt) (step_state p (fN2Bottom p) c t s)"
  shows "\<exists>c' t' s'. descent p c t s = Inr (c', t', s') \<and> wf_state s' \<and> I c' t' s' \<and> \<not> c' < depth p"
  using assms
proof (induction p c t s rule: descent.induct)
  case (1 p c t s)
  show ?case
  proof (cases "c < depth p")
    case True
    have upd: "update p c t False s = Inr (step_state p (fN2Bottom p) c t s)"
      using "1.prems"(1) by (rule update_False)
    have "\<exists>c' t' s'. descent p (c + 150 / 10 * dt) (t + dt) (step_state p (fN2Bottom p) c t s)
        = Inr (c', t', s') \<and> wf_state s' \<and> I c' t' s' \<and> \<not> c' < depth p"
    proof (rule "1.IH"[OF True upd])
      show "wf_state (step_state p (fN2Bottom p) c t s)" by (rule wf_step_state)
      show "I (c + 150 / 10 * dt) (t + dt) (step_state p (fN2Bottom p) c t s)"
        using "1.prems"(3)[OF "1.prems"(1) "1.prems"(2) True] by simp
      show "\<And>c t s. wf_state s \<Longrightarrow> I c t s \<Longrightarrow> c < depth p \<Longrightarrow>
           I (c + 15 * dt) (t + dt) (step_state p (fN2Bottom p) c t s)"
        using "1.prems"(3) by blast
    qed
    then show ?thesis
      using True upd by (subst descent.simps) simp
  next
    case False
    then show ?thesis
      using "1.prems"(1,2) by (subst descent.simps) simp
  qed
qed

lemma bottom_rule:
  assumes "wf_state s" and "I t s"
    and "\<And>t s. wf_state s \<Longrightarrow> I t s \<Longrightarrow> t < tEnd \<Longrightarrow>
           I (t + dt) (step_state p (fN2Bottom p) (depth p) t s)"
  shows "\<exists>t' s'. bottom p tEnd t s = Inr (t', s') \<and> wf_state s' \<and> I t' s' \<and> \<not> t' < tEnd"
  using assms
proof (induction p tEnd t s rule: bottom.induct)
  case (1 p tEnd t s)
  show ?case
  proof (cases "t < tEnd")
    case True
    have upd: "update p (depth p) t False s = Inr (step_state p (fN2Bottom p) (depth p) t s)"
      using "1.prems"(1) by (rule update_False)
    have "\<exists>t' s'. bottom p tEnd (t + dt) (step_state p (fN2Bottom p) (depth p) t s)
        = Inr (t', s') \<and> wf_state s' \<and> I t' s' \<and> \<not> t' < tEnd"
    proof (rule "1.IH"[OF True upd])
      show "wf_state (step_state p (fN2Bottom p) (depth p) t s)" by (rule wf_step_state)
      show "I (t + dt) (step_state p (fN2Bottom p) (depth p) t s)"
        using "1.prems"(3)[OF "1.prems"(1) "1.prems"(2) True] by simp
      show "\<And>t s. wf_state s \<Longrightarrow> I t s \<Longrightarrow> t < tEnd \<Longrightarrow>
           I (t + dt) (step_state p (fN2Bottom p) (depth p) t s)"
        using "1.prems"(3) by blast
    qed
    then show ?thesis
      using True upd by (subst bottom.simps) simp
  next
    case False
    then show ?thesis
      using "1.prems"(1,2) by (subst bottom.simps) simp
  qed
qed

lemma ascent_step_closed:
  assumes "wf_state s"
  shows "ascent_step p c t s =
     (case getCeiling p s c of
        Inl e \<Rightarrow> Inl e
      | Inr ceil \<Rightarrow>
          (case activeN2 p (ascent_move p c (nextStop ceil)) True of
             Inl e \<Rightarrow> Inl e
           | Inr fN2 \<Rightarrow>
               Inr (ascent_move p c (nextStop ceil),
                    step_state p fN2 (ascent_move p c (nextStop ceil)) t s)))"
  by (simp add: ascent_step_def update_eq[OF assms] Let_def split: sum.splits)

lemma ascent_step_wf:
  "wf_state s \<Longrightarrow> ascent_step p c t s = Inr (c', s') \<Longrightarrow> wf_state s'"
  by (auto simp: ascent_step_closed wf_step_state split: sum.splits)

lemma ascent_unfold:
  "ascent (Suc m) p c t s =
     (if c > 0 then
        (case ascent_step p c t s of
           Inl e \<Rightarrow> Some (Inl e)
         | Inr (c', s') \<Rightarrow>
             (if c' = 0 then
                (case getCeiling p s' 0 of
                   Inl e \<Rightarrow> Some (Inl e)
                 | Inr c0 \<Rightarrow> if c0 \<le> 0 then Some (Inr s') else ascent m p c' (t + dt) s')
              else ascent m p c' (t + dt) s'))
      else Some (Inr s))"
  by (subst ascent.simps) simp

lemma ascent_0: "ascent 0 p c t s = (if c > 0 then None else Some (Inr s))"
  by (subst ascent.simps) simp

lemma ascent_rule:
  assumes "ascent n p c t s = Some (Inr s')" and "wf_state s" and "I c t s"
    and "\<And>c t s c' s'. wf_state s \<Longrightarrow> I c t s \<Longrightarrow> 0 < c \<Longrightarrow>
           ascent_step p c t s = Inr (c', s') \<Longrightarrow> I c' (t + dt) s'"
  shows "\<exists>c' t'. I c' t' s' \<and> c' \<le> 0 \<and> wf_state s'"
  using assms(1,2,3)
proof (induction n arbitrary: c t s)
  case 0
  then show ?case by (auto simp: ascent_0 split: if_splits)
next
  case (Suc m)
  show ?case
  proof (cases "c > 0")
    case False
    then have "s' = s" using Suc.prems(1) by (simp add: ascent_unfold)
    then show ?thesis using False Suc.prems by auto
  next
    case True
    from Suc.prems(1) True obtain c1 s1 where st: "ascent_step p c t s = Inr (c1, s1)"
      by (auto simp: ascent_unfold split: sum.splits)
    have wf1: "wf_state s1" using ascent_step_wf[OF Suc.prems(2) st] .
    have I1: "I c1 (t + dt) s1" using assms(4)[OF Suc.prems(2) Suc.prems(3) True st] .
    show ?thesis
    proof (cases "ascent m p c1 (t + dt) s1 = Some (Inr s')")
      case True
      then show ?thesis using Suc.IH[OF True wf1 I1] by blast
    next
      case False
      then have "c1 = 0 \<and> s' = s1"
        using Suc.prems(1) True st
        by (auto simp: ascent_unfold split: sum.splits if_splits)
      then show ?thesis using I1 wf1 by auto
    qed
  qed
qed

lemma example_planner_fields:
  "depth example_planner = 40" "bottomTime example_planner = 20" "vUp example_planner = 10"
  "sac example_planner = 19" "gfLow example_planner = 3/10" "gfHigh example_planner = 7/10"
  "fO2Bottom example_planner = 8/25" "fN2Bottom example_planner = 17/25"
  "fO2Deco example_planner = 8/25" "fN2Deco example_planner = 17/25"
  by (simp_all add: example_planner_def constructor_def Let_def)

subsection \<open>The tissue update\<close>

text \<open>
  Claim C8. One call of \<open>update\<close> at depth \<open>d\<close> sets every one of the 16 compartments to
  \<open>pAlv + (p\<^sub>i - pAlv) * exp (- (ln 2 / hl\<^sub>i) * dt)\<close>, where \<open>pAmb = d / 10 + 1\<close>,
  \<open>pAlv = (pAmb - 0.0627) * fN2\<close>, \<open>fN2\<close> is the inert fraction of the active gas and
  \<open>dt = 0.1\<close>. The new value of a compartment depends on no other compartment: two states
  that agree on compartment \<open>i\<close> agree on it after the call.
\<close>

theorem update_tissues_exponential:
  assumes "wf_state s" and "update p d t isDeco s = Inr s'"
  shows "\<exists>fN2. activeN2 p d isDeco = Inr fN2 \<and> length (tissues s') = 16 \<and>
           (\<forall>i<16. tissues s' ! i =
              (let pAmb = d / 10 + 1; pAlv = (pAmb - 0.0627) * fN2
               in pAlv + (tissues s ! i - pAlv) * exp (- (ln 2 / hl ! i) * 0.1))) \<and>
           (\<forall>r r' i. wf_state r \<and> update p d t isDeco r = Inr r' \<and> i < 16 \<and>
                      tissues r ! i = tissues s ! i \<longrightarrow> tissues r' ! i = tissues s' ! i)"
proof -
  from assms obtain fN2 where a: "activeN2 p d isDeco = Inr fN2"
    and s': "s' = step_state p fN2 d t s"
    by (auto simp: update_eq split: sum.splits)
  have len: "length (tissues s') = 16"
    by (simp add: s' step_state_def Let_def)
  have nth: "tissues (step_state p fN2 d t r) ! i =
      (let pAmb = d / 10 + 1; pAlv = (pAmb - 0.0627) * fN2
       in pAlv + (tissues r ! i - pAlv) * exp (- (ln 2 / hl ! i) * 0.1))" if "i < 16" for i r
    using that by (simp add: step_state_def Let_def decay_def dt_def del: upt_Suc upt.simps)
  have ind: "tissues r' ! i = tissues s' ! i"
    if "wf_state r" "update p d t isDeco r = Inr r'" "i < 16" "tissues r ! i = tissues s ! i"
    for r r' i
  proof -
    have "r' = step_state p fN2 d t r"
      using that(1,2) a by (simp add: update_eq)
    then show ?thesis using nth[OF that(3)] that(4) s' by simp
  qed
  show ?thesis
    using a len nth ind s' by blast
qed

text \<open>
  The first call of \<open>update\<close> of the example run, at the surface, and the same call on a
  state that differs in the second compartment only: the first compartment comes out the
  same.
\<close>

theorem update_tissues_exponential_witness:
  "wf_state init_state \<and>
   update example_planner 0 0 False init_state
     = Inr (step_state example_planner (17/25) 0 0 init_state) \<and>
   (\<exists>fN2. activeN2 example_planner 0 False = Inr fN2 \<and>
      length (tissues (step_state example_planner (17/25) 0 0 init_state)) = 16 \<and>
      tissues (step_state example_planner (17/25) 0 0 init_state) ! 0 =
        (let pAmb = 0 / 10 + 1; pAlv = (pAmb - 0.0627) * fN2
         in pAlv + (tissues init_state ! 0 - pAlv) * exp (- (ln 2 / hl ! 0) * 0.1))) \<and>
   wf_state (init_state\<lparr>tissues := (tissues init_state)[1 := 2]\<rparr>) \<and>
   update example_planner 0 0 False (init_state\<lparr>tissues := (tissues init_state)[1 := 2]\<rparr>)
     = Inr (step_state example_planner (17/25) 0 0
              (init_state\<lparr>tissues := (tissues init_state)[1 := 2]\<rparr>)) \<and>
   tissues (init_state\<lparr>tissues := (tissues init_state)[1 := 2]\<rparr>) ! 0 = tissues init_state ! 0 \<and>
   tissues (init_state\<lparr>tissues := (tissues init_state)[1 := 2]\<rparr>) ! 1 \<noteq> tissues init_state ! 1 \<and>
   tissues (step_state example_planner (17/25) 0 0
              (init_state\<lparr>tissues := (tissues init_state)[1 := 2]\<rparr>)) ! 0
     = tissues (step_state example_planner (17/25) 0 0 init_state) ! 0"
proof -
  let ?r = "init_state\<lparr>tissues := (tissues init_state)[1 := 2]\<rparr>"
  have w: "wf_state init_state" by (rule wf_init_state)
  have u: "update example_planner 0 0 False init_state
      = Inr (step_state example_planner (17/25) 0 0 init_state)"
    using update_False[OF w, of example_planner 0 0] by (simp add: example_planner_fields)
  have wr: "wf_state ?r" using w by (simp add: wf_state_def)
  have ur: "update example_planner 0 0 False ?r = Inr (step_state example_planner (17/25) 0 0 ?r)"
    using update_False[OF wr, of example_planner 0 0] by (simp add: example_planner_fields)
  have e0: "tissues ?r ! 0 = tissues init_state ! 0" by (simp add: init_state_def)
  have e1: "tissues ?r ! 1 \<noteq> tissues init_state ! 1" by (simp add: init_state_def)
  have z: "(0::nat) < 16" by simp
  from update_tissues_exponential[OF w u] obtain fN2 where
    1: "activeN2 example_planner 0 False = Inr fN2"
    "length (tissues (step_state example_planner (17/25) 0 0 init_state)) = 16"
    "\<forall>i<16. tissues (step_state example_planner (17/25) 0 0 init_state) ! i =
        (let pAmb = 0 / 10 + 1; pAlv = (pAmb - 0.0627) * fN2
         in pAlv + (tissues init_state ! i - pAlv) * exp (- (ln 2 / hl ! i) * 0.1))"
    and 2: "\<forall>r r' i. wf_state r \<and> update example_planner 0 0 False r = Inr r' \<and> i < 16 \<and>
        tissues r ! i = tissues init_state ! i \<longrightarrow>
        tissues r' ! i = tissues (step_state example_planner (17/25) 0 0 init_state) ! i"
    by blast
  have 3: "tissues (step_state example_planner (17/25) 0 0 ?r) ! 0
      = tissues (step_state example_planner (17/25) 0 0 init_state) ! 0"
    using 2 wr ur z e0 by blast
  show ?thesis
    using w u wr ur e0 e1 z 1 3 by blast
qed

subsection \<open>Maximum operating depth\<close>

text \<open>
  Claim C4, as corrected. \<open>getSwitchDepth\<close> and the calling layer compute
  \<open>(1.6 / f - 1) * 10\<close>. For 32 percent oxygen that is 40 m, since \<open>1.6 / 0.32 = 5\<close>;
  for 21 percent it is \<open>1390 / 21\<close>, within 0.005 of 66.19 m.
\<close>

theorem mod_values:
  "getSwitchDepth (constructor d bt v sc tk pd gl gh fb (Some 32)) = Inr 40 \<and>
   calculate_mod 32 = 40 \<and>
   (case getSwitchDepth (constructor d bt v sc tk pd gl gh fb (Some 21)) of
      Inl e \<Rightarrow> False
    | Inr m \<Rightarrow> \<bar>m - 66.19\<bar> < 0.005) \<and>
   \<bar>calculate_mod 21 - 66.19\<bar> < 0.005"
  by (simp add: getSwitchDepth_def constructor_def calculate_mod_def Let_def)

text \<open>Claim C4 as stated: the value for 32 percent oxygen is not 31.25 m.\<close>

theorem mod_32_counterexample:
  "getSwitchDepth (constructor 40 20 10 19 15 200 30 70 21 (Some 32)) \<noteq> Inr 31.25 \<and>
   calculate_mod 32 \<noteq> 31.25"
  by (simp add: getSwitchDepth_def constructor_def calculate_mod_def Let_def)

subsection \<open>The ceiling\<close>

lemma coef_b_range: "i < 16 \<Longrightarrow> 0 < coef_b ! i \<and> coef_b ! i < 1"
proof -
  assume i: "i < 16"
  have "\<forall>x\<in>set coef_b. 0 < x \<and> x < 1" by (simp add: coef_b_def)
  moreover have "length coef_b = 16" by (simp add: coef_b_def)
  then have "coef_b ! i \<in> set coef_b" using i nth_mem[of i coef_b] by simp
  ultimately show ?thesis by blast
qed

lemma coef_a_pos: "i < 16 \<Longrightarrow> 0 < coef_a ! i"
proof -
  assume i: "i < 16"
  have "\<forall>x\<in>set coef_a. 0 < x" by (simp add: coef_a_def)
  moreover have "length coef_a = 16" by (simp add: coef_a_def)
  then have "coef_a ! i \<in> set coef_a" using i nth_mem[of i coef_a] by simp
  ultimately show ?thesis by blast
qed

lemma den_ge_1: "0 \<le> gf \<Longrightarrow> i < 16 \<Longrightarrow> 1 \<le> den gf i"
proof -
  assume gf: "0 \<le> gf" and i: "i < 16"
  have "gf \<le> gf / coef_b ! i"
    using gf coef_b_range[OF i] by (simp add: pos_le_divide_eq mult_left_le)
  then show ?thesis by (simp add: den_def)
qed

lemma Max_image_16_le:
  "(\<forall>i<16. f i \<le> (c::real)) \<Longrightarrow> Max (f ` {..<(16::nat)}) \<le> c"
proof -
  assume h: "\<forall>i<16. f i \<le> c"
  have ne: "f ` {..<(16::nat)} \<noteq> {}"
    by (simp add: lessThan_empty_iff)
  show ?thesis
    using h by (subst Max_le_iff[OF _ ne]) auto
qed

lemma getCeiling_zero:
  assumes "depth p \<noteq> 0" and "0 \<le> currentGf p d" and "\<forall>i<16. tissues s ! i \<le> 1"
  shows "getCeiling p s d = Inr 0"
proof -
  let ?gf = "currentGf p d"
  have nz: "\<not> (\<exists>j<16. den ?gf j = 0)"
    using den_ge_1[OF assms(2)] by fastforce
  have "comp_ceiling ?gf s i \<le> 1" if i: "i < 16" for i
  proof -
    have d1: "1 \<le> den ?gf i" using den_ge_1[OF assms(2) i] .
    have "0 \<le> coef_a ! i * ?gf" using coef_a_pos[OF i] assms(2) by simp
    then have "tissues s ! i - coef_a ! i * ?gf \<le> den ?gf i"
      using assms(3) i d1 by fastforce
    then show ?thesis using d1 by (simp add: comp_ceiling_def pos_divide_le_eq)
  qed
  then have "Max (comp_ceiling ?gf s ` {..<16}) \<le> 1"
    by (intro Max_image_16_le) blast
  then show ?thesis
    using assms(1) nz by (simp add: getCeiling_closed)
qed

lemma getCeiling_nonneg: "getCeiling p s d = Inr c \<Longrightarrow> 0 \<le> c"
  by (auto simp: getCeiling_closed split: if_splits)

text \<open>
  Claim C5. Where no divisor vanishes, \<open>getCeiling\<close> returns \<open>max 0 ((M - 1) * 10)\<close>, with
  \<open>M\<close> the maximum over the 16 compartments of
  \<open>(tissue\<^sub>i - a\<^sub>i * GF) / (GF / b\<^sub>i + 1 - GF)\<close> and
  \<open>GF = gfHigh + (gfHigh - gfLow) / (0 - depth) * currentDepth\<close>; \<open>GF\<close> is \<open>gfLow\<close> at the
  depth of the dive and \<open>gfHigh\<close> at the surface; and whatever \<open>getCeiling\<close> returns is
  at least 0.
\<close>

theorem getCeiling_formula:
  assumes "length (tissues s) = 16" and "depth p \<noteq> 0"
    and "\<forall>i<16. currentGf p d / coef_b ! i + 1 - currentGf p d \<noteq> 0"
  shows "getCeiling p s d =
           Inr (max 0 ((Max ((\<lambda>i. (tissues s ! i - coef_a ! i * currentGf p d) /
                                   (currentGf p d / coef_b ! i + 1 - currentGf p d)) ` {..<16})
                        - 1) * 10)) \<and>
         currentGf p d = gfHigh p + (gfHigh p - gfLow p) / (0 - depth p) * d \<and>
         currentGf p (depth p) = gfLow p \<and> currentGf p 0 = gfHigh p \<and>
         (\<forall>q r e c. getCeiling q r e = Inr c \<longrightarrow> 0 \<le> c)"
proof -
  have nz: "\<not> (\<exists>j<16. den (currentGf p d) j = 0)"
    using assms(3) by (simp add: den_def)
  have "comp_ceiling (currentGf p d) s =
      (\<lambda>i. (tissues s ! i - coef_a ! i * currentGf p d) /
             (currentGf p d / coef_b ! i + 1 - currentGf p d))"
    by (rule ext) (simp add: comp_ceiling_def den_def)
  then have 1: "getCeiling p s d =
           Inr (max 0 ((Max ((\<lambda>i. (tissues s ! i - coef_a ! i * currentGf p d) /
                                   (currentGf p d / coef_b ! i + 1 - currentGf p d)) ` {..<16})
                        - 1) * 10))"
    using assms(2) nz by (simp add: getCeiling_closed)
  have 2: "currentGf p d = gfHigh p + (gfHigh p - gfLow p) / (0 - depth p) * d"
    by (simp add: currentGf_def Let_def)
  have 3: "currentGf p (depth p) = gfLow p"
    using assms(2) by (simp add: currentGf_def Let_def field_simps)
  have 4: "currentGf p 0 = gfHigh p"
    by (simp add: currentGf_def Let_def)
  show ?thesis using 1 2 3 4 getCeiling_nonneg by blast
qed

text \<open>The example planner at 40 m, before the dive: every compartment holds 0.79 bar.\<close>

lemma example_gf_40: "currentGf example_planner 40 = 3 / 10"
  by (simp add: currentGf_def Let_def example_planner_fields)

theorem getCeiling_formula_witness:
  "length (tissues init_state) = 16 \<and> depth example_planner \<noteq> 0 \<and>
   \<not> (\<exists>i<16. currentGf example_planner 40 / coef_b ! i + 1 - currentGf example_planner 40 = 0) \<and>
   getCeiling example_planner init_state 40 =
     Inr (max 0 ((Max ((\<lambda>i. (tissues init_state ! i - coef_a ! i * currentGf example_planner 40) /
                             (currentGf example_planner 40 / coef_b ! i + 1
                                - currentGf example_planner 40)) ` {..<16}) - 1) * 10)) \<and>
   currentGf example_planner (depth example_planner) = gfLow example_planner \<and>
   currentGf example_planner 0 = gfHigh example_planner \<and>
   getCeiling example_planner init_state 40 = Inr 0"
proof -
  have a: "length (tissues init_state) = 16" by (simp add: init_state_def)
  have b: "depth example_planner \<noteq> 0" by (simp add: example_planner_fields)
  have c: "\<forall>i<16. currentGf example_planner 40 / coef_b ! i + 1 - currentGf example_planner 40 \<noteq> 0"
  proof (intro allI impI)
    fix i :: nat assume "i < 16"
    then have "0 < den (currentGf example_planner 40) i"
      by (intro den_pos) (simp_all add: example_gf_40)
    then show "currentGf example_planner 40 / coef_b ! i + 1 - currentGf example_planner 40 \<noteq> 0"
      by (simp add: den_def)
  qed
  have t: "\<forall>i<16. tissues init_state ! i \<le> 1"
  proof -
    have "\<forall>x\<in>set (tissues init_state). x \<le> 1" by (simp add: init_state_def)
    then show ?thesis using a by (metis nth_mem)
  qed
  have z: "getCeiling example_planner init_state 40 = Inr 0"
    by (rule getCeiling_zero[OF b _ t]) (simp add: example_gf_40)
  from getCeiling_formula[OF a b c] show ?thesis
    using a b c z by blast
qed

subsection \<open>The next stop\<close>

lemma nextStop_bounds: "c \<le> nextStop c \<and> nextStop c < c + 3"
proof -
  have "of_int \<lceil>c / 3\<rceil> - 1 < c / 3" and "c / 3 \<le> of_int \<lceil>c / 3\<rceil>"
    using ceiling_correct[of "c / 3"] by blast+
  then have "of_int \<lceil>c / 3\<rceil> * 3 < c + 3" and "c \<le> of_int \<lceil>c / 3\<rceil> * 3"
    by linarith+
  then show ?thesis by (simp add: nextStop_def)
qed

lemma nextStop_multiple:
  "3 * (of_int k - 1) < c \<Longrightarrow> c \<le> 3 * of_int k \<Longrightarrow> nextStop c = 3 * of_int k"
proof -
  assume a: "3 * (of_int k - 1) < c" and b: "c \<le> 3 * of_int k"
  have "\<lceil>c / 3\<rceil> = k"
    using a b by (intro ceiling_unique) auto
  then show ?thesis by (simp add: nextStop_def)
qed

lemma ascent_move_ge: "stop \<le> ascent_move p c stop"
  by (simp add: ascent_move_def Let_def)

lemma log_depth_step_state:
  "log_depth (divelog (step_state p fN2 d t s)) = log_depth (divelog s) @ [d]"
  by (simp add: step_state_def Let_def)

lemma example_switch: "getSwitchDepth example_planner = Inr 40"
  by (simp add: getSwitchDepth_def example_planner_fields)

lemma init_tissues_le_1: "\<forall>i<16. tissues init_state ! i \<le> 1"
proof -
  have "\<forall>x\<in>set (tissues init_state). x \<le> 1" by (simp add: init_state_def)
  moreover have "length (tissues init_state) = 16" by (simp add: init_state_def)
  ultimately show ?thesis by (metis nth_mem)
qed

subsection \<open>The shape of the log\<close>

lemma log_shape_init: "log_shape 0 0 init_state"
proof -
  have "\<forall>x\<in>set (log_tissues (divelog init_state)). length x = 0"
    by (simp add: init_state_def)
  moreover have "length (log_tissues (divelog init_state)) = 16"
    by (simp add: init_state_def)
  ultimately have "\<forall>i<16. length (log_tissues (divelog init_state) ! i) = 0"
    by (metis nth_mem)
  then show ?thesis by (simp add: log_shape_def init_state_def)
qed

lemma log_tissues_step_state:
  "i < 16 \<Longrightarrow> log_tissues (divelog (step_state p fN2 d t s)) ! i =
     log_tissues (divelog s) ! i @ [decay ((d / 10 + 1 - 0.0627) * fN2) i (tissues s ! i)]"
  by (simp add: step_state_def Let_def del: upt_Suc upt.simps)

lemma log_shape_step:
  assumes "log_shape n t s"
  shows "log_shape (Suc n) (t + dt) (step_state p fN2 d t s)"
proof -
  have t: "t = real n * dt" using assms by (simp add: log_shape_def)
  have "\<forall>i<16. length (log_tissues (divelog (step_state p fN2 d t s)) ! i) = Suc n"
    using assms by (simp add: log_tissues_step_state log_shape_def)
  moreover have "log_time (divelog (step_state p fN2 d t s)) = map (\<lambda>k. real k * dt) [0..<Suc n]"
    using assms by (simp add: step_state_def Let_def log_shape_def)
  moreover have "t + dt = real (Suc n) * dt"
    using t by (simp add: algebra_simps)
  moreover have "length (log_depth (divelog (step_state p fN2 d t s))) = Suc n"
    "length (log_ppo2 (divelog (step_state p fN2 d t s))) = Suc n"
    "length (log_tissues (divelog (step_state p fN2 d t s))) = 16"
    using assms by (simp_all add: step_state_def Let_def log_shape_def)
  ultimately show ?thesis unfolding log_shape_def by blast
qed

lemma run_state_cases:
  assumes "run_state n p = Some (Inr s')"
  obtains c1 t1 s1 t2 s2 where
    "descent p 0 0 init_state = Inr (c1, t1, s1)"
    "bottom p (t1 + bottomTime p) t1 s1 = Inr (t2, s2)"
    "ascent n p (depth p) t2 s2 = Some (Inr s')"
  using assms by (auto simp: run_state_def Let_def split: sum.splits)

lemma run_state_rule:
  assumes "run_state n p = Some (Inr s')" and "I 0 init_state"
    and "\<And>t s fN2 d. wf_state s \<Longrightarrow> I t s \<Longrightarrow> I (t + dt) (step_state p fN2 d t s)"
  shows "\<exists>t'. I t' s' \<and> wf_state s'"
proof -
  from assms(1) obtain c1 t1 s1 t2 s2 where
    d: "descent p 0 0 init_state = Inr (c1, t1, s1)" and
    b: "bottom p (t1 + bottomTime p) t1 s1 = Inr (t2, s2)" and
    a: "ascent n p (depth p) t2 s2 = Some (Inr s')"
    by (rule run_state_cases)
  have "\<exists>c' t' s'. descent p 0 0 init_state = Inr (c', t', s') \<and> wf_state s' \<and> I t' s' \<and> \<not> c' < depth p"
    by (rule descent_rule[where I = "\<lambda>c t s. I t s"]) (use assms in \<open>auto simp: wf_init_state\<close>)
  then have 1: "wf_state s1" "I t1 s1" using d by auto
  have "\<exists>t' s'. bottom p (t1 + bottomTime p) t1 s1 = Inr (t', s') \<and> wf_state s' \<and> I t' s'
      \<and> \<not> t' < t1 + bottomTime p"
    by (rule bottom_rule[where I = I]) (use 1 assms(3) in auto)
  then have 2: "wf_state s2" "I t2 s2" using b by auto
  have step: "I (t + dt) s'"
    if "wf_state s" "I t s" "0 < c" "ascent_step p c t s = Inr (c', s')" for c t s c' s'
    using that assms(3) by (auto simp: ascent_step_closed split: sum.splits)
  define J where "J = (\<lambda>(c::real) t s. I t s)"
  have "\<exists>c' t'. J c' t' s' \<and> c' \<le> 0 \<and> wf_state s'"
  proof (rule ascent_rule[OF a 2(1)])
    show "J (depth p) t2 s2" using 2(2) by (simp add: J_def)
    show "\<And>c t s c' s'. wf_state s \<Longrightarrow> J c t s \<Longrightarrow> 0 < c \<Longrightarrow>
        ascent_step p c t s = Inr (c', s') \<Longrightarrow> J c' (t + dt) s'"
      using step by (simp add: J_def)
  qed
  then show ?thesis by (auto simp: J_def)
qed

subsection \<open>Bounds on the tissue pressures\<close>

lemma hl_pos: "i < 16 \<Longrightarrow> 0 < hl ! i"
proof -
  assume i: "i < 16"
  have "\<forall>x\<in>set hl. 0 < x" by (simp add: hl_def)
  moreover have "length hl = 16" by (simp add: hl_def)
  then have "hl ! i \<in> set hl" using i nth_mem[of i hl] by simp
  ultimately show ?thesis by blast
qed

lemma efac_range: "i < 16 \<Longrightarrow> 0 < efac i \<and> efac i < 1"
proof -
  assume i: "i < 16"
  have "0 < ln 2 / hl ! i" using hl_pos[OF i] by simp
  then have "- (ln 2 / hl ! i) * dt < 0" by (simp add: dt_def)
  then show ?thesis by (simp add: efac_def)
qed

lemma decay_efac: "decay pAlv i x = pAlv + (x - pAlv) * efac i"
  by (simp add: decay_def efac_def)

lemma decay_convex: "decay pAlv i x = efac i * x + (1 - efac i) * pAlv"
  by (simp add: decay_efac algebra_simps)

lemma decay_le: "i < 16 \<Longrightarrow> x \<le> B \<Longrightarrow> pAlv \<le> B \<Longrightarrow> decay pAlv i x \<le> B"
proof -
  assume i: "i < 16" and x: "x \<le> B" and p: "pAlv \<le> B"
  have e: "0 < efac i" "efac i < 1" using efac_range[OF i] by auto
  have "efac i * x \<le> efac i * B" using x e by simp
  moreover have "(1 - efac i) * pAlv \<le> (1 - efac i) * B" using p e by (simp add: mult_left_mono)
  ultimately have "decay pAlv i x \<le> efac i * B + (1 - efac i) * B"
    by (simp add: decay_convex)
  then show ?thesis by (simp add: algebra_simps)
qed

lemma decay_ge: "i < 16 \<Longrightarrow> B \<le> x \<Longrightarrow> B \<le> pAlv \<Longrightarrow> B \<le> decay pAlv i x"
proof -
  assume i: "i < 16" and x: "B \<le> x" and p: "B \<le> pAlv"
  have e: "0 < efac i" "efac i < 1" using efac_range[OF i] by auto
  have "efac i * B \<le> efac i * x" using x e by simp
  moreover have "(1 - efac i) * B \<le> (1 - efac i) * pAlv" using p e by (simp add: mult_left_mono)
  ultimately have "efac i * B + (1 - efac i) * B \<le> decay pAlv i x"
    by (simp add: decay_convex)
  then show ?thesis by (simp add: algebra_simps)
qed

lemma tissues_step_state:
  "i < 16 \<Longrightarrow> tissues (step_state p fN2 d t s) ! i =
     decay ((d / 10 + 1 - 0.0627) * fN2) i (tissues s ! i)"
  by (simp add: step_state_def Let_def del: upt_Suc upt.simps)

lemma step_state_le:
  "\<forall>i<16. tissues s ! i \<le> B \<Longrightarrow> (d / 10 + 1 - 0.0627) * fN2 \<le> B \<Longrightarrow>
   \<forall>i<16. tissues (step_state p fN2 d t s) ! i \<le> B"
  by (simp add: tissues_step_state decay_le)

subsection \<open>The dives to 1 m\<close>

lemma shallow_descent:
  assumes "shallow_dive p"
  shows "descent p 0 0 init_state = Inr (3/2, 1/10, shallow_s1 p)"
proof -
  have d: "depth p = 1" using assms by (simp add: shallow_dive_def)
  have "descent p 0 0 init_state = descent p (3/2) (1/10) (shallow_s1 p)"
    by (subst descent.simps)
       (simp add: update_False[OF wf_init_state] d shallow_s1_def dt_def)
  also have "\<dots> = Inr (3/2, 1/10, shallow_s1 p)"
    by (subst descent.simps) (simp add: d)
  finally show ?thesis .
qed

lemma shallow_bottom:
  assumes "shallow_dive p"
  shows "bottom p (1/10 + bottomTime p) (1/10) (shallow_s1 p) = Inr (2/10, shallow_s2 p)"
proof -
  have d: "depth p = 1" and b: "0 < bottomTime p" "bottomTime p \<le> 1/10"
    using assms by (simp_all add: shallow_dive_def)
  have w: "wf_state (shallow_s1 p)" by (simp add: shallow_s1_def wf_step_state)
  have "bottom p (1/10 + bottomTime p) (1/10) (shallow_s1 p)
      = bottom p (1/10 + bottomTime p) (2/10) (shallow_s2 p)"
    using b by (subst bottom.simps) (simp add: update_False[OF w] d shallow_s2_def dt_def)
  also have "\<dots> = Inr (2/10, shallow_s2 p)"
    using b by (subst bottom.simps) simp
  finally show ?thesis .
qed

lemma shallow_tissues:
  assumes "shallow_dive p"
  shows "\<forall>i<16. tissues (shallow_s1 p) ! i \<le> 1" "\<forall>i<16. tissues (shallow_s2 p) ! i \<le> 1"
    "\<forall>i<16. tissues (shallow_s3 p) ! i \<le> 1"
proof -
  have f: "fN2Bottom p \<le> 24/25" "fN2Deco p \<le> 1"
    using assms by (simp_all add: shallow_dive_def)
  show 1: "\<forall>i<16. tissues (shallow_s1 p) ! i \<le> 1"
    unfolding shallow_s1_def using f by (intro step_state_le[OF init_tissues_le_1]) simp
  show 2: "\<forall>i<16. tissues (shallow_s2 p) ! i \<le> 1"
    unfolding shallow_s2_def using f by (intro step_state_le[OF 1]) simp
  show "\<forall>i<16. tissues (shallow_s3 p) ! i \<le> 1"
    unfolding shallow_s3_def using f by (intro step_state_le[OF 2]) simp
qed

lemma shallow_ascent:
  assumes "shallow_dive p"
  shows "ascent 1 p (depth p) (2/10) (shallow_s2 p) = Some (Inr (shallow_s3 p))"
proof -
  have d: "depth p = 1" and v: "10 \<le> vUp p" and gf: "0 \<le> gfLow p" "0 \<le> gfHigh p"
    and o: "0 < fO2Deco p" "fO2Deco p \<le> 8/5"
    using assms by (simp_all add: shallow_dive_def)
  have w: "wf_state (shallow_s2 p)" by (simp add: shallow_s2_def wf_step_state)
  have c: "getCeiling p (shallow_s2 p) 1 = Inr 0"
    using gf by (intro getCeiling_zero[OF _ _ shallow_tissues(2)[OF assms]])
       (simp_all add: currentGf_def Let_def d)
  have m: "ascent_move p 1 (nextStop 0) = 0"
    using v by (simp add: ascent_move_def nextStop_def Let_def dt_def)
  have "10 \<le> 16 / fO2Deco p" using o by (simp add: pos_le_divide_eq)
  then have g: "activeN2 p 0 True = Inr (fN2Deco p)"
    using o by (simp add: activeN2_def getSwitchDepth_def)
  have st: "ascent_step p 1 (2/10) (shallow_s2 p) = Inr (0, shallow_s3 p)"
    by (simp add: ascent_step_closed[OF w] c m g shallow_s3_def)
  have c0: "getCeiling p (shallow_s3 p) 0 = Inr 0"
    using gf by (intro getCeiling_zero[OF _ _ shallow_tissues(3)[OF assms]])
       (simp_all add: currentGf_def Let_def d)
  show ?thesis
    using st c0 by (simp add: ascent_unfold d)
qed

lemma shallow_run_state: "shallow_dive p \<Longrightarrow> run_state 1 p = Some (Inr (shallow_s3 p))"
  using shallow_descent[of p] shallow_bottom[of p] shallow_ascent[of p]
  by (simp add: run_state_def Let_def)

lemma shallow_run: "shallow_dive p \<Longrightarrow> run 1 p = Some (Inr (divelog (shallow_s3 p)))"
  using shallow_run_state[of p] by (simp add: run_def del: One_nat_def)

lemma shallow_log:
  "log_time (divelog (shallow_s3 p)) = [0, 1/10, 2/10]"
  "log_depth (divelog (shallow_s3 p)) = [0, 1, 0]"
  "log_ppo2 (divelog (shallow_s3 p)) = [1 - fN2Bottom p, 11/10 * (1 - fN2Bottom p), 1 - fN2Deco p]"
  "log_cons (divelog (shallow_s3 p)) = sac p * (31 / 100)"
  by (simp_all add: shallow_s3_def shallow_s2_def shallow_s1_def step_state_def Let_def
      init_state_def dt_def algebra_simps)

lemma small_planner_fields:
  "depth small_planner = 1" "bottomTime small_planner = 1/10" "vUp small_planner = 10"
  "sac small_planner = 19" "gfLow small_planner = 3/10" "gfHigh small_planner = 7/10"
  "fO2Bottom small_planner = 21/100" "fN2Bottom small_planner = 79/100"
  "fO2Deco small_planner = 21/100" "fN2Deco small_planner = 79/100"
  by (simp_all add: small_planner_def constructor_def Let_def)

lemma small_shallow: "shallow_dive small_planner"
  by (simp add: shallow_dive_def small_planner_fields)

lemma deco_planner_fields:
  "depth deco_planner = 1" "bottomTime deco_planner = 1/10" "vUp deco_planner = 10"
  "sac deco_planner = 19" "gfLow deco_planner = 3/10" "gfHigh deco_planner = 7/10"
  "fO2Bottom deco_planner = 21/100" "fN2Bottom deco_planner = 79/100"
  "fO2Deco deco_planner = 1/2" "fN2Deco deco_planner = 1/2"
  by (simp_all add: deco_planner_def constructor_def Let_def)

lemma deco_shallow: "shallow_dive deco_planner"
  by (simp add: shallow_dive_def deco_planner_fields)

lemma run_Inr: "run n p = Some (Inr L) \<Longrightarrow> \<exists>s. run_state n p = Some (Inr s) \<and> L = divelog s"
  by (auto simp: run_def split: option.splits sum.splits)

lemma log_shape_run:
  assumes "run_state n p = Some (Inr s)"
  shows "\<exists>m t. log_shape m t s"
proof -
  have "\<exists>t'. (\<exists>m. log_shape m t' s) \<and> wf_state s"
  proof (rule run_state_rule[OF assms])
    show "\<exists>m. log_shape m 0 init_state" using log_shape_init by blast
    show "\<And>t s fN2 d. wf_state s \<Longrightarrow> \<exists>m. log_shape m t s \<Longrightarrow>
        \<exists>m. log_shape m (t + dt) (step_state p fN2 d t s)"
      using log_shape_step by blast
  qed
  then show ?thesis by blast
qed

text \<open>
  Claim C9. Every call of \<open>update\<close> appends one time, one depth, one PPO2 and one pressure
  to each of the 16 series of tissue pressures, and every pass of each of the three loops
  calls \<open>update\<close> once. So the log that \<open>run\<close> returns has 16 series of tissue pressures,
  each as long as the series of times, depths and PPO2 values, and its times are
  \<open>0, 0.1, 0.2, ...\<close>: each exceeds the one before by the time step 0.1.
\<close>

theorem log_one_sample_per_step:
  assumes "run n p = Some (Inr L)"
  shows "length (log_tissues L) = 16 \<and>
         (\<forall>i<16. length (log_tissues L ! i) = length (log_time L)) \<and>
         length (log_depth L) = length (log_time L) \<and>
         length (log_ppo2 L) = length (log_time L) \<and>
         log_time L = map (\<lambda>k. real k * 0.1) [0..<length (log_time L)] \<and>
         (\<forall>k. Suc k < length (log_time L) \<longrightarrow>
            log_time L ! Suc k = log_time L ! k + 0.1 \<and> log_time L ! k < log_time L ! Suc k) \<and>
         (\<forall>s d t isDeco s'. wf_state s \<and> update p d t isDeco s = Inr s' \<longrightarrow>
            log_time (divelog s') = log_time (divelog s) @ [t] \<and>
            log_depth (divelog s') = log_depth (divelog s) @ [d] \<and>
            length (log_ppo2 (divelog s')) = Suc (length (log_ppo2 (divelog s))) \<and>
            length (log_tissues (divelog s')) = 16 \<and>
            (\<forall>i<16. length (log_tissues (divelog s') ! i)
                      = Suc (length (log_tissues (divelog s) ! i))))"
proof -
  from assms obtain s where s: "run_state n p = Some (Inr s)" and L: "L = divelog s"
    using run_Inr by blast
  from log_shape_run[OF s] obtain m t where sh: "log_shape m t s" by blast
  have len: "length (log_time L) = m" using sh L by (simp add: log_shape_def)
  have 1: "length (log_tissues L) = 16" "\<forall>i<16. length (log_tissues L ! i) = length (log_time L)"
    "length (log_depth L) = length (log_time L)" "length (log_ppo2 L) = length (log_time L)"
    using sh L len by (simp_all add: log_shape_def)
  have 2: "log_time L = map (\<lambda>k. real k * 0.1) [0..<length (log_time L)]"
    using sh L len by (simp add: log_shape_def dt_def)
  have 3: "log_time L ! Suc k = log_time L ! k + 0.1 \<and> log_time L ! k < log_time L ! Suc k"
    if "Suc k < length (log_time L)" for k
  proof -
    have a: "log_time L ! Suc k = real (Suc k) * 0.1"
      using that by (subst 2) (simp del: upt_Suc)
    have b: "log_time L ! k = real k * 0.1"
      using that by (subst 2) (simp del: upt_Suc)
    show ?thesis using a b by (simp add: algebra_simps)
  qed
  have 4: "log_time (divelog s') = log_time (divelog r) @ [t] \<and>
            log_depth (divelog s') = log_depth (divelog r) @ [d] \<and>
            length (log_ppo2 (divelog s')) = Suc (length (log_ppo2 (divelog r))) \<and>
            length (log_tissues (divelog s')) = 16 \<and>
            (\<forall>i<16. length (log_tissues (divelog s') ! i)
                      = Suc (length (log_tissues (divelog r) ! i)))"
    if "wf_state r \<and> update p d t isDeco r = Inr s'" for r d t isDeco s'
  proof -
    from that obtain fN2 where s': "s' = step_state p fN2 d t r"
      by (auto simp: update_eq split: sum.splits)
    have "\<forall>i<16. length (log_tissues (divelog s') ! i) = Suc (length (log_tissues (divelog r) ! i))"
      by (simp add: s' log_tissues_step_state)
    then show ?thesis by (simp add: s' step_state_def Let_def)
  qed
  show ?thesis using 1 2 3 4 by blast
qed

text \<open>The dive to 1 m returns a log of three samples.\<close>

theorem log_one_sample_per_step_witness:
  "run 1 small_planner = Some (Inr (divelog (shallow_s3 small_planner))) \<and>
   length (log_tissues (divelog (shallow_s3 small_planner))) = 16 \<and>
   length (log_tissues (divelog (shallow_s3 small_planner)) ! 0)
     = length (log_time (divelog (shallow_s3 small_planner))) \<and>
   length (log_depth (divelog (shallow_s3 small_planner)))
     = length (log_time (divelog (shallow_s3 small_planner))) \<and>
   length (log_ppo2 (divelog (shallow_s3 small_planner)))
     = length (log_time (divelog (shallow_s3 small_planner))) \<and>
   log_time (divelog (shallow_s3 small_planner)) = [0, 1/10, 2/10] \<and>
   log_depth (divelog (shallow_s3 small_planner)) = [0, 1, 0] \<and>
   Suc 0 < length (log_time (divelog (shallow_s3 small_planner))) \<and>
   log_time (divelog (shallow_s3 small_planner)) ! Suc 0
     = log_time (divelog (shallow_s3 small_planner)) ! 0 + 0.1 \<and>
   wf_state init_state \<and>
   update small_planner 0 0 False init_state = Inr (shallow_s1 small_planner) \<and>
   log_time (divelog (shallow_s1 small_planner)) = log_time (divelog init_state) @ [0] \<and>
   length (log_tissues (divelog (shallow_s1 small_planner)) ! 0)
     = Suc (length (log_tissues (divelog init_state) ! 0))"
proof -
  have z: "(0::nat) < 16" by simp
  have r: "run 1 small_planner = Some (Inr (divelog (shallow_s3 small_planner)))"
    by (rule shallow_run[OF small_shallow])
  have k: "Suc 0 < length (log_time (divelog (shallow_s3 small_planner)))"
    by (simp add: shallow_log)
  have u: "update small_planner 0 0 False init_state = Inr (shallow_s1 small_planner)"
    by (simp add: update_False[OF wf_init_state] shallow_s1_def)
  note t = log_one_sample_per_step[OF r]
  have 1: "log_time (divelog (shallow_s3 small_planner)) ! Suc 0
     = log_time (divelog (shallow_s3 small_planner)) ! 0 + 0.1"
    using t k by blast
  have 2: "log_time (divelog (shallow_s1 small_planner)) = log_time (divelog init_state) @ [0]"
    "length (log_tissues (divelog (shallow_s1 small_planner)) ! 0)
     = Suc (length (log_tissues (divelog init_state) ! 0))"
    using t wf_init_state u z by blast+
  show ?thesis
    using t r z k u wf_init_state 1 2 shallow_log(1,2)[of small_planner] by blast
qed

subsection \<open>The active gas\<close>

lemma log_gas_step_state:
  "log_depth (divelog (step_state p fN2 d t s)) = log_depth (divelog s) @ [d]"
  "log_ppo2 (divelog (step_state p fN2 d t s)) = log_ppo2 (divelog s) @ [(d / 10 + 1) * (1 - fN2)]"
  by (simp_all add: step_state_def Let_def)

lemma descent_bottom_gas:
  assumes "descent p 0 0 init_state = Inr (c1, t1, s1)"
    and "bottom p tEnd t1 s1 = Inr (t2, s2)"
  shows "wf_state s2 \<and>
         log_ppo2 (divelog s2) = map (\<lambda>d. (d / 10 + 1) * (1 - fN2Bottom p)) (log_depth (divelog s2))"
proof -
  define I where "I = (\<lambda>s::state. log_ppo2 (divelog s)
      = map (\<lambda>d. (d / 10 + 1) * (1 - fN2Bottom p)) (log_depth (divelog s)))"
  have step: "I (step_state p (fN2Bottom p) d t s)" if "I s" for d t s
    using that by (simp add: I_def log_gas_step_state)
  have "\<exists>c' t' s'. descent p 0 0 init_state = Inr (c', t', s') \<and> wf_state s' \<and> I s'
      \<and> \<not> c' < depth p"
    by (rule descent_rule[where I = "\<lambda>c t s. I s", OF wf_init_state])
       (use step in \<open>auto simp: I_def init_state_def\<close>)
  then have 1: "wf_state s1" "I s1" using assms(1) by auto
  have "\<exists>t' s'. bottom p tEnd t1 s1 = Inr (t', s') \<and> wf_state s' \<and> I s' \<and> \<not> t' < tEnd"
    by (rule bottom_rule[where I = "\<lambda>t s. I s", OF 1(1)]) (use 1 step in auto)
  then show ?thesis using assms(2) by (auto simp: I_def)
qed

lemma ascent_gas:
  assumes "ascent n p c t s = Some (Inr s')" and "wf_state s"
  shows "\<exists>xs. log_depth (divelog s') = log_depth (divelog s) @ xs \<and>
           log_ppo2 (divelog s') = log_ppo2 (divelog s) @
             map (\<lambda>d. (d / 10 + 1) *
                    (1 - (if d \<le> (1.6 / fO2Deco p - 1) * 10 then fN2Deco p else fN2Bottom p))) xs"
proof -
  define g where "g = (\<lambda>d. (d / 10 + 1) *
      (1 - (if d \<le> (1.6 / fO2Deco p - 1) * 10 then fN2Deco p else fN2Bottom p)))"
  define I where "I = (\<lambda>(c::real) (t::real) (r::state). \<exists>xs. log_depth (divelog r) = log_depth (divelog s) @ xs \<and>
      log_ppo2 (divelog r) = log_ppo2 (divelog s) @ map g xs)"
  have "\<exists>c' t'. I c' t' s' \<and> c' \<le> 0 \<and> wf_state s'"
  proof (rule ascent_rule[OF assms])
    show "I c t s" by (simp add: I_def)
    fix c t r c' r'
    assume w: "wf_state r" and i: "I c t r" and st: "ascent_step p c t r = Inr (c', r')"
    from st w obtain fN2 where a: "activeN2 p c' True = Inr fN2"
      and r': "r' = step_state p fN2 c' t r"
      by (auto simp: ascent_step_closed split: sum.splits)
    from a have f: "fN2 = (if c' \<le> (1.6 / fO2Deco p - 1) * 10 then fN2Deco p else fN2Bottom p)"
      by (auto simp: activeN2_def getSwitchDepth_def split: if_splits)
    from i obtain xs where xs: "log_depth (divelog r) = log_depth (divelog s) @ xs"
      "log_ppo2 (divelog r) = log_ppo2 (divelog s) @ map g xs"
      by (auto simp: I_def)
    have "log_depth (divelog r') = log_depth (divelog s) @ (xs @ [c'])"
      "log_ppo2 (divelog r') = log_ppo2 (divelog s) @ map g (xs @ [c'])"
      using xs f by (simp_all add: r' log_gas_step_state g_def)
    then show "I c' (t + dt) r'" unfolding I_def by blast
  qed
  then show ?thesis by (auto simp: I_def g_def)
qed

text \<open>
  Claim C7. The descent and the bottom call \<open>update\<close> with \<open>isDeco = false\<close>, and then the
  gas is the bottom gas at every depth; the ascent calls it with \<open>isDeco = true\<close>, and then
  the gas is the deco gas exactly when the depth is at most the switch depth
  \<open>(1.6 / fO2Deco - 1) * 10\<close>, which is 22 m for a deco gas of 50 percent oxygen. For a run
  that returns, with \<open>s2\<close> the state when the ascent starts: every sample logged before
  has the PPO2 of the bottom gas at its depth, and every sample the ascent logs has the
  PPO2 of the deco gas when its depth is at most the switch depth and of the bottom gas
  otherwise.
\<close>

theorem active_gas_by_phase:
  "activeN2 p d False = Inr (fN2Bottom p) \<and>
   (fO2Deco p \<noteq> 0 \<longrightarrow>
      activeN2 p d True =
        Inr (if d \<le> (1.6 / fO2Deco p - 1) * 10 then fN2Deco p else fN2Bottom p)) \<and>
   getSwitchDepth (constructor dp bt v sc tk pd gl gh fb (Some 50)) = Inr 22 \<and>
   (descent p 0 0 init_state = Inr (c1, t1, s1) \<and>
    bottom p (t1 + bottomTime p) t1 s1 = Inr (t2, s2) \<and>
    ascent n p (depth p) t2 s2 = Some (Inr s3) \<longrightarrow>
      log_ppo2 (divelog s2)
        = map (\<lambda>d. (d / 10 + 1) * (1 - fN2Bottom p)) (log_depth (divelog s2)) \<and>
      (\<exists>xs. log_depth (divelog s3) = log_depth (divelog s2) @ xs \<and>
         log_ppo2 (divelog s3) = log_ppo2 (divelog s2) @
           map (\<lambda>d. (d / 10 + 1) *
                  (1 - (if d \<le> (1.6 / fO2Deco p - 1) * 10 then fN2Deco p else fN2Bottom p))) xs))"
proof -
  have 1: "activeN2 p d False = Inr (fN2Bottom p)" by (rule activeN2_False)
  have 2: "fO2Deco p \<noteq> 0 \<longrightarrow>
      activeN2 p d True =
        Inr (if d \<le> (1.6 / fO2Deco p - 1) * 10 then fN2Deco p else fN2Bottom p)"
    by (simp add: activeN2_def getSwitchDepth_def)
  have 3: "getSwitchDepth (constructor dp bt v sc tk pd gl gh fb (Some 50)) = Inr 22"
    by (simp add: getSwitchDepth_def constructor_def Let_def)
  have 4: "descent p 0 0 init_state = Inr (c1, t1, s1) \<and>
    bottom p (t1 + bottomTime p) t1 s1 = Inr (t2, s2) \<and>
    ascent n p (depth p) t2 s2 = Some (Inr s3) \<longrightarrow>
      log_ppo2 (divelog s2)
        = map (\<lambda>d. (d / 10 + 1) * (1 - fN2Bottom p)) (log_depth (divelog s2)) \<and>
      (\<exists>xs. log_depth (divelog s3) = log_depth (divelog s2) @ xs \<and>
         log_ppo2 (divelog s3) = log_ppo2 (divelog s2) @
           map (\<lambda>d. (d / 10 + 1) *
                  (1 - (if d \<le> (1.6 / fO2Deco p - 1) * 10 then fN2Deco p else fN2Bottom p))) xs)"
    using descent_bottom_gas ascent_gas by blast
  show ?thesis using 1 2 3 4 by blast
qed

text \<open>
  The dive to 1 m with a deco gas of 50 percent oxygen: the two samples of the descent and
  the bottom have the PPO2 of air, the sample of the ascent, at the surface and so above
  22 m, that of the deco gas.
\<close>

theorem active_gas_by_phase_witness:
  "fO2Deco deco_planner \<noteq> 0 \<and>
   activeN2 deco_planner 0 True = Inr (fN2Deco deco_planner) \<and>
   activeN2 deco_planner 30 True = Inr (fN2Bottom deco_planner) \<and>
   getSwitchDepth deco_planner = Inr 22 \<and>
   descent deco_planner 0 0 init_state = Inr (3/2, 1/10, shallow_s1 deco_planner) \<and>
   bottom deco_planner (1/10 + bottomTime deco_planner) (1/10) (shallow_s1 deco_planner)
     = Inr (2/10, shallow_s2 deco_planner) \<and>
   ascent 1 deco_planner (depth deco_planner) (2/10) (shallow_s2 deco_planner)
     = Some (Inr (shallow_s3 deco_planner)) \<and>
   log_ppo2 (divelog (shallow_s2 deco_planner))
     = map (\<lambda>d. (d / 10 + 1) * (1 - fN2Bottom deco_planner))
         (log_depth (divelog (shallow_s2 deco_planner))) \<and>
   log_depth (divelog (shallow_s3 deco_planner)) = [0, 1, 0] \<and>
   log_ppo2 (divelog (shallow_s3 deco_planner)) = [21/100, 231/1000, 1/2]"
proof -
  have nz: "fO2Deco deco_planner \<noteq> 0" by (simp add: deco_planner_fields)
  have sw: "getSwitchDepth deco_planner = Inr 22"
    by (simp add: getSwitchDepth_def deco_planner_fields)
  have a0: "activeN2 deco_planner 0 True = Inr (fN2Deco deco_planner)"
    using active_gas_by_phase[of deco_planner 0] nz by (simp add: deco_planner_fields)
  have a30: "activeN2 deco_planner 30 True = Inr (fN2Bottom deco_planner)"
    using active_gas_by_phase[of deco_planner 30] nz by (simp add: deco_planner_fields)
  note d = shallow_descent[OF deco_shallow]
  note b = shallow_bottom[OF deco_shallow]
  note a = shallow_ascent[OF deco_shallow]
  have g: "log_ppo2 (divelog (shallow_s2 deco_planner))
     = map (\<lambda>d. (d / 10 + 1) * (1 - fN2Bottom deco_planner))
         (log_depth (divelog (shallow_s2 deco_planner)))"
    using active_gas_by_phase[of deco_planner _ _ _ _ _ _ _ _ _ _ "3/2" "1/10"
        "shallow_s1 deco_planner" "2/10" "shallow_s2 deco_planner" 1 "shallow_s3 deco_planner"]
      d b a by blast
  have l: "log_depth (divelog (shallow_s3 deco_planner)) = [0, 1, 0]"
    "log_ppo2 (divelog (shallow_s3 deco_planner)) = [21/100, 231/1000, 1/2]"
    by (simp_all add: shallow_log deco_planner_fields)
  show ?thesis using nz sw a0 a30 d b a g l by blast
qed

subsection \<open>No validation\<close>

lemma first_sample_step:
  assumes "\<exists>ys zs. log_depth (divelog s) = 0 # ys \<and> log_time (divelog s) = 0 # zs"
  shows "\<exists>ys zs. log_depth (divelog (step_state p fN2 d t s)) = 0 # ys \<and>
           log_time (divelog (step_state p fN2 d t s)) = 0 # zs"
  using assms by (auto simp: step_state_def Let_def)

lemma descent_first_sample:
  assumes "0 < depth p"
  shows "\<exists>c t s. descent p 0 0 init_state = Inr (c, t, s) \<and> wf_state s \<and>
           (\<exists>ys zs. log_depth (divelog s) = 0 # ys \<and> log_time (divelog s) = 0 # zs)"
proof -
  define I where "I = (\<lambda>s::state. \<exists>ys zs. log_depth (divelog s) = 0 # ys \<and>
      log_time (divelog s) = 0 # zs)"
  let ?s0 = "step_state p (fN2Bottom p) 0 0 init_state"
  have unf: "descent p 0 0 init_state = descent p (0 + 15 * dt) (0 + dt) ?s0"
    using assms by (subst descent.simps) (simp add: update_False[OF wf_init_state])
  have i0: "I ?s0" by (simp add: I_def step_state_def Let_def init_state_def)
  have "\<exists>c' t' s'. descent p (0 + 15 * dt) (0 + dt) ?s0 = Inr (c', t', s') \<and> wf_state s'
      \<and> I s' \<and> \<not> c' < depth p"
  proof (rule descent_rule[where I = "\<lambda>c t s. I s", OF wf_step_state])
    show "I ?s0" by (rule i0)
    show "\<And>c t s. wf_state s \<Longrightarrow> I s \<Longrightarrow> c < depth p \<Longrightarrow> I (step_state p (fN2Bottom p) c t s)"
      unfolding I_def by (rule first_sample_step)
  qed
  then show ?thesis using unf by (auto simp: I_def)
qed

lemma run_first_sample:
  assumes "run_state n p = Some (Inr s')" and "0 < depth p"
  shows "\<exists>ys zs. log_depth (divelog s') = 0 # ys \<and> log_time (divelog s') = 0 # zs"
proof -
  define I where "I = (\<lambda>s::state. \<exists>ys zs. log_depth (divelog s) = 0 # ys \<and>
      log_time (divelog s) = 0 # zs)"
  have step: "I (step_state p fN2 d t s)" if "I s" for fN2 d t s
    using that unfolding I_def by (rule first_sample_step)
  from assms(1) obtain c1 t1 s1 t2 s2 where
    d: "descent p 0 0 init_state = Inr (c1, t1, s1)" and
    b: "bottom p (t1 + bottomTime p) t1 s1 = Inr (t2, s2)" and
    a: "ascent n p (depth p) t2 s2 = Some (Inr s')"
    by (rule run_state_cases)
  have 1: "wf_state s1" "I s1"
    using descent_first_sample[OF assms(2)] d by (auto simp: I_def)
  have "\<exists>t' s'. bottom p (t1 + bottomTime p) t1 s1 = Inr (t', s') \<and> wf_state s' \<and> I s'
      \<and> \<not> t' < t1 + bottomTime p"
    by (rule bottom_rule[where I = "\<lambda>t s. I s", OF 1(1)]) (use 1 step in auto)
  then have 2: "wf_state s2" "I s2" using b by auto
  define J where "J = (\<lambda>(c::real) (t::real) s. I s)"
  have "\<exists>c' t'. J c' t' s' \<and> c' \<le> 0 \<and> wf_state s'"
  proof (rule ascent_rule[OF a 2(1)])
    show "J (depth p) t2 s2" using 2(2) by (simp add: J_def)
    show "\<And>c t s c' s'. wf_state s \<Longrightarrow> J c t s \<Longrightarrow> 0 < c \<Longrightarrow>
        ascent_step p c t s = Inr (c', s') \<Longrightarrow> J c' (t + dt) s'"
      using step by (auto simp: J_def ascent_step_closed split: sum.splits)
  qed
  then show ?thesis by (auto simp: J_def I_def)
qed

text \<open>
  Claim C3, as corrected. Neither the constructor nor \<open>run\<close> checks a parameter: the
  constructor stores what it is given, valid or not (the percentages divided by 100), and
  \<open>run\<close> starts stepping at once. Whenever the depth is positive the descent returns with
  a first sample logged at time 0 and depth 0, and so does every run that returns. The one
  failure of the model, \<open>NonFinite\<close>, is an arithmetic one and arises during the stepping.
\<close>

theorem run_steps_without_validation:
  "depth (constructor dp bt v sc tk pd gl gh fb fd) = dp \<and>
   bottomTime (constructor dp bt v sc tk pd gl gh fb fd) = bt \<and>
   vUp (constructor dp bt v sc tk pd gl gh fb fd) = v \<and>
   sac (constructor dp bt v sc tk pd gl gh fb fd) = sc \<and>
   tankV (constructor dp bt v sc tk pd gl gh fb fd) = tk \<and>
   gfLow (constructor dp bt v sc tk pd gl gh fb fd) = gl / 100 \<and>
   gfHigh (constructor dp bt v sc tk pd gl gh fb fd) = gh / 100 \<and>
   fO2Bottom (constructor dp bt v sc tk pd gl gh fb fd) = fb / 100 \<and>
   (0 < dp \<longrightarrow>
      (\<exists>c t s ys zs. descent (constructor dp bt v sc tk pd gl gh fb fd) 0 0 init_state
           = Inr (c, t, s) \<and>
         log_depth (divelog s) = 0 # ys \<and> log_time (divelog s) = 0 # zs) \<and>
      (\<forall>n L. run n (constructor dp bt v sc tk pd gl gh fb fd) = Some (Inr L) \<longrightarrow>
         (\<exists>ys zs. log_depth L = 0 # ys \<and> log_time L = 0 # zs)))"
proof -
  let ?p = "constructor dp bt v sc tk pd gl gh fb fd"
  have f: "depth ?p = dp" "bottomTime ?p = bt" "vUp ?p = v" "sac ?p = sc" "tankV ?p = tk"
    "gfLow ?p = gl / 100" "gfHigh ?p = gh / 100" "fO2Bottom ?p = fb / 100"
    by (simp_all add: constructor_def Let_def)
  have d: "\<exists>c t s ys zs. descent ?p 0 0 init_state = Inr (c, t, s) \<and>
         log_depth (divelog s) = 0 # ys \<and> log_time (divelog s) = 0 # zs" if "0 < dp"
    using descent_first_sample[of ?p] that f(1) by auto
  have r: "\<exists>ys zs. log_depth L = 0 # ys \<and> log_time L = 0 # zs"
    if "0 < dp" "run n ?p = Some (Inr L)" for n L
  proof -
    from that(2) obtain s where "run_state n ?p = Some (Inr s)" "L = divelog s"
      using run_Inr by blast
    then show ?thesis using run_first_sample[of n ?p s] that(1) f(1) by simp
  qed
  show ?thesis using f d r by blast
qed

lemma invalid_planner_fields:
  "depth invalid_planner = 1" "bottomTime invalid_planner = 1/10" "vUp invalid_planner = 10"
  "sac invalid_planner = -19" "tankV invalid_planner = 0"
  "gfLow invalid_planner = 9/10" "gfHigh invalid_planner = 3/10"
  "fO2Bottom invalid_planner = 3/2" "fN2Bottom invalid_planner = -1/2"
  "fO2Deco invalid_planner = 3/2" "fN2Deco invalid_planner = -1/2"
  by (simp_all add: invalid_planner_def constructor_def Let_def)

lemma invalid_shallow: "shallow_dive invalid_planner"
  by (simp add: shallow_dive_def invalid_planner_fields)

text \<open>The invalid parameter set of above: the first sample, and the run.\<close>

theorem run_steps_without_validation_witness:
  "0 < (1::real) \<and>
   \<not> valid_parameters 1 (1/10) 10 (-19) 0 200 90 30 150 None \<and>
   (\<exists>c t s ys zs. descent (constructor 1 (1/10) 10 (-19) 0 200 90 30 150 None) 0 0 init_state
        = Inr (c, t, s) \<and>
      log_depth (divelog s) = 0 # ys \<and> log_time (divelog s) = 0 # zs) \<and>
   run 1 (constructor 1 (1/10) 10 (-19) 0 200 90 30 150 None)
     = Some (Inr (divelog (shallow_s3 invalid_planner))) \<and>
   (\<exists>ys zs. log_depth (divelog (shallow_s3 invalid_planner)) = 0 # ys \<and>
      log_time (divelog (shallow_s3 invalid_planner)) = 0 # zs)"
proof -
  have v: "\<not> valid_parameters 1 (1/10) 10 (-19) 0 200 90 30 150 None"
    by (simp add: valid_parameters_def)
  have z: "0 < (1::real)" by simp
  have r: "run 1 (constructor 1 (1/10) 10 (-19) 0 200 90 30 150 None)
     = Some (Inr (divelog (shallow_s3 invalid_planner)))"
    using shallow_run[OF invalid_shallow] by (simp add: invalid_planner_def del: One_nat_def)
  note t = run_steps_without_validation[of 1 "1/10" 10 "-19" 0 200 90 30 150 None]
  have 1: "\<exists>ys zs. log_depth (divelog (shallow_s3 invalid_planner)) = 0 # ys \<and>
      log_time (divelog (shallow_s3 invalid_planner)) = 0 # zs"
    using t z r by blast
  show ?thesis
    using t v z r 1 by blast
qed

text \<open>
  Claim C3 as stated: on the invalid parameter set of above, \<open>run\<close> reports nothing and
  returns a log of three samples.
\<close>

theorem invalid_parameters_counterexample:
  "\<not> valid_parameters 1 (1/10) 10 (-19) 0 200 90 30 150 None \<and>
   invalid_planner = constructor 1 (1/10) 10 (-19) 0 200 90 30 150 None \<and>
   run 1 invalid_planner = Some (Inr (divelog (shallow_s3 invalid_planner))) \<and>
   log_time (divelog (shallow_s3 invalid_planner)) = [0, 1/10, 2/10] \<and>
   log_depth (divelog (shallow_s3 invalid_planner)) = [0, 1, 0]"
  using shallow_run[OF invalid_shallow] shallow_log(1,2)[of invalid_planner]
  by (simp add: valid_parameters_def invalid_planner_def del: One_nat_def)

subsection \<open>Gas consumption\<close>

lemma cons_step_state:
  "log_cons (divelog (step_state p fN2 d t s)) = log_cons (divelog s) + sac p * (d / 10 + 1) * dt"
  by (simp add: step_state_def Let_def)

lemma cons_run:
  assumes "run_state n p = Some (Inr s)"
  shows "log_cons (divelog s) = sac p * dt * sum_list (map (\<lambda>d. d / 10 + 1) (log_depth (divelog s)))"
proof -
  define I where "I = (\<lambda>(t::real) (s::state). log_cons (divelog s)
      = sac p * dt * sum_list (map (\<lambda>d. d / 10 + 1) (log_depth (divelog s))))"
  have "\<exists>t'. I t' s \<and> wf_state s"
  proof (rule run_state_rule[OF assms])
    show "I 0 init_state" by (simp add: I_def init_state_def)
    show "\<And>t s fN2 d. wf_state s \<Longrightarrow> I t s \<Longrightarrow> I (t + dt) (step_state p fN2 d t s)"
      by (simp add: I_def cons_step_state log_gas_step_state algebra_simps)
  qed
  then show ?thesis by (simp add: I_def)
qed

text \<open>No function of the run reads \<open>bottomTime\<close> but \<open>run\<close> itself, for \<open>tEndBottom\<close>.\<close>

lemma update_bottomTime: "update (p\<lparr>bottomTime := x\<rparr>) d t isDeco s = update p d t isDeco s"
  by (simp add: update_def activeN2_def getSwitchDepth_def)

lemma getCeiling_bottomTime: "getCeiling (p\<lparr>bottomTime := x\<rparr>) s d = getCeiling p s d"
  by (simp add: getCeiling_def currentGf_def)

lemma ascent_step_bottomTime: "ascent_step (p\<lparr>bottomTime := x\<rparr>) c t s = ascent_step p c t s"
  by (simp add: ascent_step_def update_bottomTime getCeiling_bottomTime ascent_move_def Let_def
      split: sum.splits)

lemma descent_bottomTime: "descent (p\<lparr>bottomTime := x\<rparr>) c t s = descent p c t s"
proof (induction p c t s rule: descent.induct)
  case (1 p c t s)
  note unf = descent.simps[of "p\<lparr>bottomTime := x\<rparr>" c t s] descent.simps[of p c t s]
  show ?case
  proof (cases "c < depth p")
    case True
    show ?thesis
    proof (cases "update p c t False s")
      case (Inl e)
      then show ?thesis
        unfolding unf using True by (simp add: update_bottomTime)
    next
      case (Inr s')
      then show ?thesis
        unfolding unf using True "1.IH"[OF True Inr] by (simp add: update_bottomTime)
    qed
  next
    case False
    then show ?thesis unfolding unf by simp
  qed
qed

lemma ascent_bottomTime: "ascent n (p\<lparr>bottomTime := x\<rparr>) c t s = ascent n p c t s"
proof (induction n arbitrary: c t s)
  case 0
  then show ?case by (simp add: ascent_0)
next
  case (Suc m)
  then show ?case
    by (simp add: ascent_unfold ascent_step_bottomTime getCeiling_bottomTime
        split: sum.splits prod.splits)
qed

lemma ceiling_pos_iff: "(0 < \<lceil>x / dt\<rceil>) = (0 < x)"
proof -
  have "(0 < \<lceil>x / dt\<rceil>) = (0 < x / dt)" by (simp add: ceiling_less_iff less_ceiling_iff)
  then show ?thesis by (simp add: dt_def)
qed

lemma bottom_tEnd:
  "\<lceil>(tEnd - t) / dt\<rceil> = \<lceil>(tEnd' - t) / dt\<rceil> \<Longrightarrow>
   bottom (p\<lparr>bottomTime := x\<rparr>) tEnd' t s = bottom p tEnd t s"
proof (induction p tEnd t s rule: bottom.induct)
  case (1 p tEnd t s)
  note unf = bottom.simps[of "p\<lparr>bottomTime := x\<rparr>" tEnd' t s] bottom.simps[of p tEnd t s]
  have iff: "(t < tEnd') = (t < tEnd)"
    using ceiling_pos_iff[of "tEnd - t"] ceiling_pos_iff[of "tEnd' - t"] "1.prems" by simp
  show ?case
  proof (cases "t < tEnd")
    case True
    have e1: "(tEnd - (t + dt)) / dt = (tEnd - t) / dt - 1"
      and e2: "(tEnd' - (t + dt)) / dt = (tEnd' - t) / dt - 1"
      by (simp_all add: dt_def field_simps)
    have nxt: "\<lceil>(tEnd - (t + dt)) / dt\<rceil> = \<lceil>(tEnd' - (t + dt)) / dt\<rceil>"
      using "1.prems" unfolding e1 e2 by simp
    show ?thesis
    proof (cases "update p (depth p) t False s")
      case (Inl e)
      then show ?thesis
        unfolding unf using True iff by (simp add: update_bottomTime)
    next
      case (Inr s')
      then show ?thesis
        unfolding unf using True iff "1.IH"[OF True Inr nxt] by (simp add: update_bottomTime)
    qed
  next
    case False
    then show ?thesis unfolding unf using iff by simp
  qed
qed

lemma half_planner_fields:
  "depth half_planner = 1" "bottomTime half_planner = 1/20" "vUp half_planner = 10"
  "sac half_planner = 19" "gfLow half_planner = 3/10" "gfHigh half_planner = 7/10"
  "fO2Bottom half_planner = 21/100" "fN2Bottom half_planner = 79/100"
  "fO2Deco half_planner = 21/100" "fN2Deco half_planner = 79/100"
  by (simp_all add: half_planner_def constructor_def Let_def)

lemma half_shallow: "shallow_dive half_planner"
  by (simp add: shallow_dive_def half_planner_fields)

subsection \<open>The ascent loop has no bound\<close>

lemma ascent_more_passes:
  "ascent n p c t s = Some r \<Longrightarrow> ascent (n + k) p c t s = Some r"
proof (induction n arbitrary: c t s)
  case 0
  then have "\<not> c > 0" by (auto simp: ascent_0 split: if_splits)
  then show ?case using 0 by (cases k) (simp_all add: ascent_0 ascent_unfold)
next
  case (Suc m)
  show ?case
  proof (cases "c > 0")
    case False
    then show ?thesis using Suc.prems by (simp add: ascent_unfold)
  next
    case True
    show ?thesis
    proof (cases "ascent_step p c t s")
      case (Inl e)
      then show ?thesis using Suc.prems True by (simp add: ascent_unfold)
    next
      case (Inr cs)
      obtain c' s' where cs: "cs = (c', s')" by (cases cs)
      show ?thesis
      proof (cases "c' = 0")
        case False
        then have "ascent m p c' (t + dt) s' = Some r"
          using Suc.prems True Inr cs by (simp add: ascent_unfold)
        then have "ascent (m + k) p c' (t + dt) s' = Some r" by (rule Suc.IH)
        then show ?thesis using True Inr cs False by (simp add: ascent_unfold)
      next
        case z: True
        show ?thesis
        proof (cases "getCeiling p s' 0")
          case (Inl e)
          then show ?thesis using Suc.prems True Inr cs z by (simp add: ascent_unfold)
        next
          case c0: (Inr c0)
          show ?thesis
          proof (cases "c0 \<le> 0")
            case True
            then show ?thesis
              using Suc.prems \<open>c > 0\<close> Inr cs z c0 by (simp add: ascent_unfold)
          next
            case False
            then have "ascent m p c' (t + dt) s' = Some r"
              using Suc.prems True Inr cs z c0 by (simp add: ascent_unfold)
            then have "ascent (m + k) p c' (t + dt) s' = Some r" by (rule Suc.IH)
            then show ?thesis using True Inr cs z c0 False by (simp add: ascent_unfold)
          qed
        qed
      qed
    qed
  qed
qed

lemma run_more_passes: "run n p = Some r \<Longrightarrow> run (n + k) p = Some r"
proof -
  assume r: "run n p = Some r"
  then obtain r' where r': "run_state n p = Some r'"
    by (auto simp: run_def split: option.splits)
  have "run_state (n + k) p = Some r'"
    using r' by (auto simp: run_state_def Let_def ascent_more_passes split: sum.splits)
  then show ?thesis using r r' by (simp add: run_def)
qed

lemma ascent_step_depth:
  assumes "wf_state s" and "ascent_step p c t s = Inr (c', s')"
  shows "0 \<le> c' \<and> log_depth (divelog s') = log_depth (divelog s) @ [c']"
proof -
  from assms obtain ceil where c: "getCeiling p s c = Inr ceil" and "nextStop ceil \<le> c'"
    and l: "log_depth (divelog s') = log_depth (divelog s) @ [c']"
    by (auto simp: ascent_step_closed ascent_move_ge log_depth_step_state split: sum.splits)
  moreover have "0 \<le> ceil" using c by (rule getCeiling_nonneg)
  moreover have "ceil \<le> nextStop ceil" using nextStop_bounds by blast
  ultimately show ?thesis by simp
qed

lemma ascent_ends_at_surface:
  assumes "ascent n p c t s = Some (Inr s')" and "wf_state s" and "0 < c"
  shows "log_depth (divelog s') \<noteq> [] \<and> last (log_depth (divelog s')) = 0"
proof -
  define I where "I = (\<lambda>(c'::real) (t'::real) (r::state).
      (r = s \<and> c' = c) \<or> (log_depth (divelog r) \<noteq> [] \<and> last (log_depth (divelog r)) = c' \<and> 0 \<le> c'))"
  have "\<exists>c' t'. I c' t' s' \<and> c' \<le> 0 \<and> wf_state s'"
  proof (rule ascent_rule[OF assms(1,2)])
    show "I c t s" by (simp add: I_def)
    fix c1 t1 r c' r'
    assume "wf_state r" "ascent_step p c1 t1 r = Inr (c', r')"
    then show "I c' (t1 + dt) r'"
      using ascent_step_depth[of r p c1 t1 c' r'] by (simp add: I_def)
  qed
  then show ?thesis using assms(3) by (auto simp: I_def)
qed

text \<open>
  Claim C2, as corrected. The ascent loop has no bound on its passes and \<open>run\<close> has no
  result that reports an incomplete decompression. The number \<open>n\<close> of the model bounds
  nothing: what a run returns within \<open>n\<close> passes it returns within any larger number. The
  loop ends only with the depth at 0: the last sample of an ascent that returns is at
  depth 0.
\<close>

theorem ascent_ends_only_at_surface:
  "(ascent n p c t s = Some r \<longrightarrow> ascent (n + k) p c t s = Some r) \<and>
   (run n p = Some r' \<longrightarrow> run (n + k) p = Some r') \<and>
   (ascent n p c t s = Some (Inr s') \<and> wf_state s \<and> 0 < c \<longrightarrow>
      log_depth (divelog s') \<noteq> [] \<and> last (log_depth (divelog s')) = 0)"
  using ascent_more_passes run_more_passes ascent_ends_at_surface by blast

text \<open>The dive to 1 m: one pass, and the same result with five more allowed.\<close>

theorem ascent_ends_only_at_surface_witness:
  "ascent 1 small_planner (depth small_planner) (2/10) (shallow_s2 small_planner)
     = Some (Inr (shallow_s3 small_planner)) \<and>
   ascent (1 + 5) small_planner (depth small_planner) (2/10) (shallow_s2 small_planner)
     = Some (Inr (shallow_s3 small_planner)) \<and>
   run 1 small_planner = Some (Inr (divelog (shallow_s3 small_planner))) \<and>
   run (1 + 5) small_planner = Some (Inr (divelog (shallow_s3 small_planner))) \<and>
   wf_state (shallow_s2 small_planner) \<and> 0 < depth small_planner \<and>
   log_depth (divelog (shallow_s3 small_planner)) \<noteq> [] \<and>
   last (log_depth (divelog (shallow_s3 small_planner))) = 0"
proof -
  note a = shallow_ascent[OF small_shallow]
  note r = shallow_run[OF small_shallow]
  have w: "wf_state (shallow_s2 small_planner)" by (simp add: shallow_s2_def wf_step_state)
  have d: "0 < depth small_planner" by (simp add: small_planner_fields)
  have 1: "ascent (1 + 5) small_planner (depth small_planner) (2/10) (shallow_s2 small_planner)
     = Some (Inr (shallow_s3 small_planner))"
    using ascent_ends_only_at_surface[of 1 small_planner "depth small_planner" "2/10"
        "shallow_s2 small_planner" "Inr (shallow_s3 small_planner)" 5] a by blast
  have 2: "run (1 + 5) small_planner = Some (Inr (divelog (shallow_s3 small_planner)))"
    using ascent_ends_only_at_surface[where n = 1 and p = small_planner and k = 5
        and r' = "Inr (divelog (shallow_s3 small_planner))"] r by blast
  have 3: "log_depth (divelog (shallow_s3 small_planner)) \<noteq> [] \<and>
      last (log_depth (divelog (shallow_s3 small_planner))) = 0"
    using ascent_ends_only_at_surface[of 1 small_planner "depth small_planner" "2/10"
        "shallow_s2 small_planner" _ _ _ "shallow_s3 small_planner"] a w d by blast
  show ?thesis using a r w d 1 2 3 by blast
qed

subsection \<open>A valid dive whose ascent never ends\<close>

lemma hl_0: "hl ! 0 = 4" by (simp add: hl_def)

lemma efac_0_pow_40: "efac 0 ^ 40 = 1 / 2"
proof -
  have "efac 0 = exp (- (ln 2 / 40))" by (simp add: efac_def hl_0 dt_def)
  then have "efac 0 ^ 40 = exp (of_nat 40 * (- (ln 2 / 40)))"
    by (simp only: exp_of_nat_mult)
  also have "\<dots> = exp (- ln 2)" by simp
  also have "\<dots> = 1 / 2" by (simp add: exp_minus)
  finally show ?thesis .
qed

lemma efac_0_pow_ge_40: "40 \<le> k \<Longrightarrow> efac 0 ^ k \<le> 1 / 2"
proof -
  assume k: "40 \<le> k"
  have e: "0 \<le> efac 0" "efac 0 \<le> 1" using efac_range[of 0] by simp_all
  have "efac 0 ^ k \<le> efac 0 ^ 40" using k e by (intro power_decreasing) simp_all
  then show ?thesis by (simp add: efac_0_pow_40)
qed

lemma decay_gap: "pAlv - decay pAlv i x = (pAlv - x) * efac i"
  by (simp add: decay_efac algebra_simps)

lemma nextStop_ge_3: "0 < c \<Longrightarrow> 3 \<le> nextStop c"
proof -
  assume "0 < c"
  then have "0 < \<lceil>c / 3\<rceil>" by (simp add: less_ceiling_iff)
  then have "1 \<le> \<lceil>c / 3\<rceil>" by simp
  then have "(1::real) \<le> of_int \<lceil>c / 3\<rceil>" by linarith
  then show ?thesis by (simp add: nextStop_def)
qed

lemma Max_image_16_ge: "i < 16 \<Longrightarrow> f i \<le> Max (f ` {..<(16::nat)})"
  by (intro Max_ge) auto

lemma hold_planner_fields:
  "depth hold_planner = 30" "bottomTime hold_planner = 4" "vUp hold_planner = 10"
  "sac hold_planner = 19" "gfLow hold_planner = 1/100" "gfHigh hold_planner = 1/100"
  "fO2Bottom hold_planner = 1/10" "fN2Bottom hold_planner = 9/10"
  "fO2Deco hold_planner = 1/10" "fN2Deco hold_planner = 9/10"
  by (simp_all add: hold_planner_def constructor_def Let_def)

lemma hold_gf: "currentGf hold_planner d = 1/100"
  by (simp add: currentGf_def Let_def hold_planner_fields)

lemma hold_descent:
  "\<exists>c1 t1 s1. descent hold_planner 0 0 init_state = Inr (c1, t1, s1) \<and> wf_state s1 \<and>
     79/100 \<le> tissues s1 ! 0"
proof -
  define I where "I = (\<lambda>(c::real) (t::real) (s::state). 0 \<le> c \<and> 79/100 \<le> tissues s ! 0)"
  have "\<exists>c' t' s'. descent hold_planner 0 0 init_state = Inr (c', t', s') \<and> wf_state s' \<and>
      I c' t' s' \<and> \<not> c' < depth hold_planner"
  proof (rule descent_rule[OF wf_init_state])
    show "I 0 0 init_state" by (simp add: I_def init_state_def)
    fix c t s
    assume i: "I c t s"
    have "79/100 \<le> decay ((c / 10 + 1 - 0.0627) * (9/10)) 0 (tissues s ! 0)"
      using i by (intro decay_ge) (simp_all add: I_def)
    then show "I (c + 15 * dt) (t + dt) (step_state hold_planner (fN2Bottom hold_planner) c t s)"
      using i by (simp add: I_def tissues_step_state hold_planner_fields dt_def)
  qed
  then show ?thesis by (auto simp: I_def)
qed

lemma hold_bottom:
  assumes "wf_state s1" and "79/100 \<le> tissues s1 ! 0"
  shows "\<exists>t2 s2. bottom hold_planner (t1 + bottomTime hold_planner) t1 s1 = Inr (t2, s2) \<and>
     wf_state s2 \<and> 11/10 \<le> tissues s2 ! 0"
proof -
  define P :: real where "P = (30 / 10 + 1 - 0.0627) * (9/10)"
  define I where "I = (\<lambda>(t::real) (s::state).
      \<exists>k::nat. t = t1 + real k * dt \<and> P - tissues s ! 0 \<le> (P - 79/100) * efac 0 ^ k)"
  have Ppos: "0 \<le> P - 79/100" by (simp add: P_def)
  have e: "0 < efac 0" using efac_range[of 0] by simp
  have "\<exists>t' s'. bottom hold_planner (t1 + bottomTime hold_planner) t1 s1 = Inr (t', s') \<and>
      wf_state s' \<and> I t' s' \<and> \<not> t' < t1 + bottomTime hold_planner"
  proof (rule bottom_rule[OF assms(1)])
    show "I t1 s1"
      unfolding I_def using assms(2) by (intro exI[of _ 0]) simp
    fix t s
    assume "I t s"
    then obtain k :: nat where k: "t = t1 + real k * dt"
      "P - tissues s ! 0 \<le> (P - 79/100) * efac 0 ^ k"
      by (auto simp: I_def)
    have "P - decay P 0 (tissues s ! 0) = (P - tissues s ! 0) * efac 0"
      by (rule decay_gap)
    also have "\<dots> \<le> ((P - 79/100) * efac 0 ^ k) * efac 0"
      using k(2) e by (intro mult_right_mono) simp_all
    finally have "P - decay P 0 (tissues s ! 0) \<le> (P - 79/100) * efac 0 ^ Suc k"
      by (simp add: mult_ac)
    moreover have "t + dt = t1 + real (Suc k) * dt"
      using k(1) by (simp add: algebra_simps)
    ultimately show "I (t + dt)
        (step_state hold_planner (fN2Bottom hold_planner) (depth hold_planner) t s)"
      unfolding I_def
      by (intro exI[of _ "Suc k"]) (simp add: tissues_step_state hold_planner_fields P_def)
  qed
  then obtain t2 s2 where r: "bottom hold_planner (t1 + bottomTime hold_planner) t1 s1 = Inr (t2, s2)"
    "wf_state s2" and i2: "I t2 s2" and fin: "\<not> t2 < t1 + bottomTime hold_planner"
    by blast
  from i2 obtain k :: nat where k: "t2 = t1 + real k * dt"
    "P - tissues s2 ! 0 \<le> (P - 79/100) * efac 0 ^ k"
    unfolding I_def by blast
  have "40 \<le> real k" using k(1) fin by (simp add: hold_planner_fields dt_def)
  then have "40 \<le> k" by simp
  then have "efac 0 ^ k \<le> 1 / 2" by (rule efac_0_pow_ge_40)
  then have "(P - 79/100) * efac 0 ^ k \<le> (P - 79/100) * (1 / 2)"
    using Ppos by (intro mult_left_mono) simp_all
  then have "P - tissues s2 ! 0 \<le> (P - 79/100) * (1 / 2)" using k(2) by simp
  then have "11/10 \<le> tissues s2 ! 0" by (simp add: P_def)
  then show ?thesis using r by blast
qed

lemma hold_ceiling:
  assumes "11/10 \<le> tissues s ! 0"
  shows "\<exists>ceil. getCeiling hold_planner s c = Inr ceil \<and> 0 < ceil"
proof -
  have nz: "\<not> (\<exists>j<16. den (1/100) j = 0)"
    using den_ge_1[of "1/100"] by fastforce
  have d0: "den (1/100) 0 = 1 / 100 / (505 / 1000) + 1 - 1 / 100"
    by (simp add: den_def coef_b_def)
  have "1 < comp_ceiling (1/100) s 0"
    using assms by (simp add: comp_ceiling_def d0 coef_a_def field_simps)
  also have "comp_ceiling (1/100) s 0 \<le> Max (comp_ceiling (1/100) s ` {..<16})"
    by (rule Max_image_16_ge) simp
  finally have "0 < (Max (comp_ceiling (1/100) s ` {..<16}) - 1) * 10" by simp
  then show ?thesis
    using nz by (simp add: getCeiling_closed hold_gf hold_planner_fields)
qed

lemma hold_ascent:
  "wf_state s \<Longrightarrow> 11/10 \<le> tissues s ! 0 \<Longrightarrow> 0 < c \<Longrightarrow> ascent n hold_planner c t s = None"
proof (induction n arbitrary: c t s)
  case 0
  then show ?case by (simp add: ascent_0)
next
  case (Suc m)
  from hold_ceiling[OF Suc.prems(2)] obtain ceil where
    c: "getCeiling hold_planner s c = Inr ceil" and pos: "0 < ceil" by blast
  define c' where "c' = ascent_move hold_planner c (nextStop ceil)"
  have c3: "3 \<le> c'"
    using nextStop_ge_3[OF pos] ascent_move_ge[of "nextStop ceil" hold_planner c]
    by (simp add: c'_def)
  have g: "activeN2 hold_planner c' True = Inr (9/10)"
    by (simp add: activeN2_def getSwitchDepth_def hold_planner_fields)
  define s' where "s' = step_state hold_planner (9/10) c' t s"
  have st: "ascent_step hold_planner c t s = Inr (c', s')"
    using g by (simp add: ascent_step_closed[OF Suc.prems(1)] c c'_def s'_def)
  have "11/10 \<le> decay ((c' / 10 + 1 - 0.0627) * (9/10)) 0 (tissues s ! 0)"
    using Suc.prems(2) c3 by (intro decay_ge) simp_all
  then have t': "11/10 \<le> tissues s' ! 0"
    by (simp add: s'_def tissues_step_state)
  have w': "wf_state s'" by (simp add: s'_def wf_step_state)
  have "ascent m hold_planner c' (t + dt) s' = None"
    using Suc.IH[OF w' t'] c3 by simp
  then show ?case
    using Suc.prems(3) st c3 by (simp add: ascent_unfold)
qed

text \<open>
  Claim C2 as stated: on this valid parameter set the fastest compartment stands at 1.1
  bar or more when the ascent starts, and from then on the ceiling is positive at every
  pass, the next stop is at 3 m or deeper, and at 3 m or deeper the gas keeps the
  compartment at 1.1 bar or more. The loop makes more than \<open>n\<close> passes for every \<open>n\<close>, and
  \<open>run\<close> never returns.
\<close>

theorem ascent_never_ends_counterexample:
  "valid_parameters 30 4 10 19.0 15 200 1 1 10 None \<and>
   hold_planner = constructor 30 4 10 19.0 15 200 1 1 10 None \<and>
   (\<forall>n. run n hold_planner = None)"
proof -
  have v: "valid_parameters 30 4 10 19.0 15 200 1 1 10 None"
    by (simp add: valid_parameters_def)
  have r: "run n hold_planner = None" for n
  proof -
    from hold_descent obtain c1 t1 s1 where
      d: "descent hold_planner 0 0 init_state = Inr (c1, t1, s1)" and 1: "wf_state s1"
      "79/100 \<le> tissues s1 ! 0" by blast
    from hold_bottom[OF 1] obtain t2 s2 where
      b: "bottom hold_planner (t1 + bottomTime hold_planner) t1 s1 = Inr (t2, s2)" and
      2: "wf_state s2" "11/10 \<le> tissues s2 ! 0" by blast
    have "ascent n hold_planner (depth hold_planner) t2 s2 = None"
      using 2 by (intro hold_ascent) (simp_all add: hold_planner_fields)
    then have "run_state n hold_planner = None"
      using d b by (simp add: run_state_def Let_def)
    then show ?thesis by (simp add: run_def)
  qed
  show ?thesis using v r by (simp add: hold_planner_def)
qed

subsection \<open>A valid dive that ends with a positive ceiling\<close>

lemma efac_0_bounds: "49/50 \<le> efac 0 \<and> efac 0 \<le> 197/200"
proof -
  have e: "0 < efac 0" using efac_range[of 0] by simp
  have lo: "49/50 \<le> efac 0"
  proof (rule ccontr)
    assume "\<not> 49/50 \<le> efac 0"
    then have "efac 0 < 49/50" by simp
    then have "efac 0 ^ 40 < (49/50) ^ 40"
      using e by (intro power_strict_mono) simp_all
    moreover have "(49/50 :: real) ^ 40 \<le> 1/2" by (simp add: power_divide)
    ultimately show False by (simp add: efac_0_pow_40)
  qed
  have hi: "efac 0 \<le> 197/200"
  proof (rule ccontr)
    assume "\<not> efac 0 \<le> 197/200"
    then have "197/200 < efac 0" by simp
    then have "(197/200) ^ 40 < efac 0 ^ 40"
      by (intro power_strict_mono) simp_all
    moreover have "1/2 \<le> (197/200 :: real) ^ 40" by (simp add: power_divide)
    ultimately show False by (simp add: efac_0_pow_40)
  qed
  show ?thesis using lo hi by simp
qed

lemma efac_0_pow_ge_160: "160 \<le> k \<Longrightarrow> efac 0 ^ k \<le> 1 / 16"
proof -
  assume k: "160 \<le> k"
  have e: "0 \<le> efac 0" "efac 0 \<le> 1" using efac_range[of 0] by simp_all
  have "efac 0 ^ k \<le> efac 0 ^ (40 * 4)" using k e by (intro power_decreasing) simp_all
  also have "\<dots> = (efac 0 ^ 40) ^ 4" by (rule power_mult)
  also have "\<dots> = 1 / 16" by (simp add: efac_0_pow_40 power_divide)
  finally show ?thesis .
qed

lemma coef_b_bounds: "i < 16 \<Longrightarrow> 101/200 \<le> coef_b ! i \<and> coef_b ! i \<le> 9653/10000"
proof -
  assume i: "i < 16"
  have "\<forall>x\<in>set coef_b. 101/200 \<le> x \<and> x \<le> 9653/10000" by (simp add: coef_b_def)
  moreover have "length coef_b = 16" by (simp add: coef_b_def)
  then have "coef_b ! i \<in> set coef_b" using i nth_mem[of i coef_b] by simp
  ultimately show ?thesis by blast
qed

lemma coef_a_le: "i < 16 \<Longrightarrow> coef_a ! i \<le> 12599/10000"
proof -
  assume i: "i < 16"
  have "\<forall>x\<in>set coef_a. x \<le> 12599/10000" by (simp add: coef_a_def)
  moreover have "length coef_a = 16" by (simp add: coef_a_def)
  then have "coef_a ! i \<in> set coef_a" using i nth_mem[of i coef_a] by simp
  ultimately show ?thesis by blast
qed

lemma comp_ceiling_le_tissue:
  assumes "0 \<le> gf" and "i < 16" and "0 \<le> tissues s ! i"
  shows "comp_ceiling gf s i \<le> tissues s ! i"
proof -
  have d: "1 \<le> den gf i" using den_ge_1[OF assms(1,2)] .
  have "0 \<le> coef_a ! i * gf" using coef_a_pos[OF assms(2)] assms(1) by simp
  then have "tissues s ! i - coef_a ! i * gf \<le> tissues s ! i" by simp
  also have "tissues s ! i \<le> tissues s ! i * den gf i"
    using d assms(3) by (simp add: mult_le_cancel_left1)
  finally show ?thesis using d by (simp add: comp_ceiling_def pos_divide_le_eq)
qed

lemma tissues_in_step:
  assumes "tissues_in lo hi s" and "lo \<le> (d / 10 + 1 - 0.0627) * fN2"
    and "(d / 10 + 1 - 0.0627) * fN2 \<le> hi"
  shows "tissues_in lo hi (step_state p fN2 d t s)"
  using assms by (simp add: tissues_in_def tissues_step_state decay_le decay_ge)

lemma surface_planner_fields:
  "depth surface_planner = 6/5" "bottomTime surface_planner = 16"
  "vUp surface_planner = 100000" "sac surface_planner = 19"
  "gfLow surface_planner = 1/100" "gfHigh surface_planner = 69/100"
  "fO2Bottom surface_planner = 1/100" "fN2Bottom surface_planner = 99/100"
  "fO2Deco surface_planner = 1/100" "fN2Deco surface_planner = 99/100"
  by (simp_all add: surface_planner_def constructor_def Let_def)

lemma surface_gf: "currentGf surface_planner d = 69/100 - 17/30 * d"
  by (simp add: currentGf_def Let_def surface_planner_fields)

lemma surface_gas: "activeN2 surface_planner d isDeco = Inr (99/100)"
  by (simp add: activeN2_def getSwitchDepth_def surface_planner_fields)

lemma surface_descent:
  "\<exists>c1 t1 s1. descent surface_planner 0 0 init_state = Inr (c1, t1, s1) \<and> wf_state s1 \<and>
     tissues_in (79/100) (13/10) s1"
proof -
  define I where "I = (\<lambda>(c::real) (t::real) (s::state). 0 \<le> c \<and> tissues_in (79/100) (13/10) s)"
  have "\<exists>c' t' s'. descent surface_planner 0 0 init_state = Inr (c', t', s') \<and> wf_state s' \<and>
      I c' t' s' \<and> \<not> c' < depth surface_planner"
  proof (rule descent_rule[OF wf_init_state])
    have "\<forall>x\<in>set (tissues init_state). 79/100 \<le> x \<and> x \<le> 13/10" by (simp add: init_state_def)
    moreover have "length (tissues init_state) = 16" by (simp add: init_state_def)
    ultimately have "tissues_in (79/100) (13/10) init_state"
      unfolding tissues_in_def by (metis nth_mem)
    then show "I 0 0 init_state" by (simp add: I_def)
    fix c t s
    assume i: "I c t s" and c: "c < depth surface_planner"
    have "tissues_in (79/100) (13/10) (step_state surface_planner (99/100) c t s)"
      using i c by (intro tissues_in_step) (simp_all add: I_def surface_planner_fields)
    then show "I (c + 15 * dt) (t + dt)
        (step_state surface_planner (fN2Bottom surface_planner) c t s)"
      using i by (simp add: I_def surface_planner_fields dt_def)
  qed
  then show ?thesis by (auto simp: I_def)
qed

lemma surface_bottom:
  assumes "wf_state s1" and "tissues_in (79/100) (13/10) s1"
  shows "\<exists>t2 s2. bottom surface_planner (t1 + bottomTime surface_planner) t1 s1 = Inr (t2, s2) \<and>
     wf_state s2 \<and> tissues_in (79/100) (13/10) s2 \<and> 103/100 \<le> tissues s2 ! 0"
proof -
  define P :: real where "P = (6/5 / 10 + 1 - 0.0627) * (99/100)"
  define I where "I = (\<lambda>(t::real) (s::state). tissues_in (79/100) (13/10) s \<and>
      (\<exists>k::nat. t = t1 + real k * dt \<and> P - tissues s ! 0 \<le> (P - 79/100) * efac 0 ^ k))"
  have Ppos: "0 \<le> P - 79/100" by (simp add: P_def)
  have e: "0 < efac 0" using efac_range[of 0] by simp
  have "\<exists>t' s'. bottom surface_planner (t1 + bottomTime surface_planner) t1 s1 = Inr (t', s') \<and>
      wf_state s' \<and> I t' s' \<and> \<not> t' < t1 + bottomTime surface_planner"
  proof (rule bottom_rule[OF assms(1)])
    have "79/100 \<le> tissues s1 ! 0" using assms(2) by (simp add: tissues_in_def)
    then show "I t1 s1"
      unfolding I_def using assms(2) by (intro conjI exI[of _ 0]) simp_all
    fix t s
    assume i: "I t s"
    then obtain k :: nat where k: "t = t1 + real k * dt"
      "P - tissues s ! 0 \<le> (P - 79/100) * efac 0 ^ k"
      unfolding I_def by blast
    have "P - decay P 0 (tissues s ! 0) = (P - tissues s ! 0) * efac 0"
      by (rule decay_gap)
    also have "\<dots> \<le> ((P - 79/100) * efac 0 ^ k) * efac 0"
      using k(2) e by (intro mult_right_mono) simp_all
    finally have g: "P - decay P 0 (tissues s ! 0) \<le> (P - 79/100) * efac 0 ^ Suc k"
      by (simp add: mult_ac)
    have t: "t + dt = t1 + real (Suc k) * dt"
      using k(1) by (simp add: algebra_simps)
    have b: "tissues_in (79/100) (13/10) (step_state surface_planner (99/100) (6/5) t s)"
      using i by (intro tissues_in_step) (simp_all add: I_def)
    have "\<exists>k'::nat. t + dt = t1 + real k' * dt \<and>
        P - tissues (step_state surface_planner (99/100) (6/5) t s) ! 0 \<le> (P - 79/100) * efac 0 ^ k'"
      using g t by (intro exI[of _ "Suc k"]) (simp add: tissues_step_state P_def)
    then show "I (t + dt) (step_state surface_planner (fN2Bottom surface_planner)
        (depth surface_planner) t s)"
      using b by (simp add: I_def surface_planner_fields)
  qed
  then obtain t2 s2 where r: "bottom surface_planner (t1 + bottomTime surface_planner) t1 s1 = Inr (t2, s2)"
    "wf_state s2" and i2: "I t2 s2" and fin: "\<not> t2 < t1 + bottomTime surface_planner"
    by blast
  from i2 obtain k :: nat where k: "t2 = t1 + real k * dt"
    "P - tissues s2 ! 0 \<le> (P - 79/100) * efac 0 ^ k"
    unfolding I_def by blast
  have "160 \<le> real k" using k(1) fin by (simp add: surface_planner_fields dt_def)
  then have "160 \<le> k" by simp
  then have "efac 0 ^ k \<le> 1 / 16" by (rule efac_0_pow_ge_160)
  then have "(P - 79/100) * efac 0 ^ k \<le> (P - 79/100) * (1 / 16)"
    using Ppos by (intro mult_left_mono) simp_all
  then have "P - tissues s2 ! 0 \<le> (P - 79/100) * (1 / 16)" using k(2) by simp
  then have "103/100 \<le> tissues s2 ! 0" by (simp add: P_def)
  then show ?thesis using r i2 by (auto simp: I_def)
qed

lemma surface_pass_1:
  assumes "wf_state s" and "tissues_in (79/100) (13/10) s" and "103/100 \<le> tissues s ! 0"
  shows "ascent_step surface_planner (6/5) t s
           = Inr (3, step_state surface_planner (99/100) 3 t s)"
proof -
  let ?gf = "1/100 :: real"
  let ?M = "Max (comp_ceiling ?gf s ` {..<16})"
  have gf: "currentGf surface_planner (6/5) = ?gf" by (simp add: surface_gf)
  have nz: "\<not> (\<exists>j<16. den ?gf j = 0)"
    using den_ge_1[of ?gf] by fastforce
  have d0: "den ?gf 0 = 1 / 100 / (505 / 1000) + 1 - 1 / 100"
    by (simp add: den_def coef_b_def)
  have "1 < comp_ceiling ?gf s 0"
    using assms(3) by (simp add: comp_ceiling_def d0 coef_a_def field_simps)
  also have "comp_ceiling ?gf s 0 \<le> ?M"
    by (rule Max_image_16_ge) simp
  finally have lo: "1 < ?M" .
  have "comp_ceiling ?gf s i \<le> 13/10" if "i < 16" for i
  proof -
    have b: "79/100 \<le> tissues s ! i" "tissues s ! i \<le> 13/10"
      using assms(2) that by (simp_all add: tissues_in_def)
    have "comp_ceiling ?gf s i \<le> tissues s ! i"
      using b that by (intro comp_ceiling_le_tissue) simp_all
    then show ?thesis using b by simp
  qed
  then have hi: "?M \<le> 13/10" by (intro Max_image_16_le) blast
  define ceil where "ceil = (?M - 1) * 10"
  have c: "getCeiling surface_planner s (6/5) = Inr ceil"
    using nz lo by (simp add: getCeiling_closed gf surface_planner_fields ceil_def)
  have n: "nextStop ceil = 3"
    using nextStop_multiple[of 1 ceil] lo hi by (simp add: ceil_def)
  have m: "ascent_move surface_planner (6/5) 3 = 3"
    by (simp add: ascent_move_def)
  show ?thesis
    by (simp add: ascent_step_closed[OF assms(1)] c n m surface_gas)
qed

lemma surface_pass_2:
  assumes "wf_state s" and "tissues_in (79/100) (13/10) s" and "103/100 \<le> tissues s ! 0"
  shows "\<exists>N. 2292 \<le> N \<and> N \<le> 2566 \<and>
           ascent_step surface_planner 3 t s = Inr (N, step_state surface_planner (99/100) N t s)"
proof -
  let ?gf = "- (101/100) :: real"
  let ?M = "Max (comp_ceiling ?gf s ` {..<16})"
  have gf: "currentGf surface_planner 3 = ?gf" by (simp add: surface_gf)
  have dlo: "1/100 \<le> den ?gf i" if "i < 16" for i
  proof -
    have b: "101/200 \<le> coef_b ! i" using coef_b_bounds[OF that] by simp
    then have "101/100 / coef_b ! i \<le> 2"
      by (simp add: pos_divide_le_eq)
    then show ?thesis by (simp add: den_def)
  qed
  have nz: "\<not> (\<exists>j<16. den ?gf j = 0)"
    using dlo by fastforce
  have d0: "den ?gf 0 = 1/100" by (simp add: den_def coef_b_def)
  have "(103/100 + 12599/10000 * (101/100)) / (1/100) \<le> comp_ceiling ?gf s 0"
    using assms(3) by (simp add: comp_ceiling_def d0 coef_a_def)
  also have "comp_ceiling ?gf s 0 \<le> ?M"
    by (rule Max_image_16_ge) simp
  finally have lo: "2302499/10000 \<le> ?M" by simp
  have "comp_ceiling ?gf s i \<le> (13/10 + 12599/10000 * (101/100)) / (1/100)" if "i < 16" for i
  proof -
    have b: "79/100 \<le> tissues s ! i" "tissues s ! i \<le> 13/10"
      using assms(2) that by (simp_all add: tissues_in_def)
    have a: "0 < coef_a ! i" "coef_a ! i \<le> 12599/10000"
      using coef_a_pos[OF that] coef_a_le[OF that] by simp_all
    have num: "tissues s ! i - coef_a ! i * ?gf \<le> 13/10 + 12599/10000 * (101/100)"
      using a b by simp
    have pos: "0 \<le> tissues s ! i - coef_a ! i * ?gf"
      using a b by simp
    have "(tissues s ! i - coef_a ! i * ?gf) / den ?gf i
        \<le> (13/10 + 12599/10000 * (101/100)) / (1/100)"
      using pos num dlo[OF that] by (intro frac_le) simp_all
    then show ?thesis by (simp add: comp_ceiling_def)
  qed
  then have "?M \<le> (13/10 + 12599/10000 * (101/100)) / (1/100)"
    by (intro Max_image_16_le) blast
  then have hi: "?M \<le> 2572499/10000" by simp
  define ceil where "ceil = (?M - 1) * 10"
  have c: "getCeiling surface_planner s 3 = Inr ceil"
    using nz lo by (simp add: getCeiling_closed gf surface_planner_fields ceil_def)
  have cb: "2292 \<le> ceil" "ceil \<le> 2563"
    using lo hi by (simp_all add: ceil_def)
  have nb: "2292 \<le> nextStop ceil" "nextStop ceil \<le> 2566"
    using nextStop_bounds[of ceil] cb by simp_all
  have m: "ascent_move surface_planner 3 (nextStop ceil) = nextStop ceil"
    using nb by (simp add: ascent_move_def)
  have "ascent_step surface_planner 3 t s
      = Inr (nextStop ceil, step_state surface_planner (99/100) (nextStop ceil) t s)"
    by (simp add: ascent_step_closed[OF assms(1)] c m surface_gas)
  then show ?thesis using nb by blast
qed

lemma den_negative:
  assumes "gf \<le> - 28" and "i < 16"
  shows "den gf i < 0"
proof -
  have b: "0 < coef_b ! i" "coef_b ! i \<le> 9653/10000"
    using coef_b_bounds[OF assms(2)] by simp_all
  have "gf * (1 - coef_b ! i) \<le> - 28 * (1 - coef_b ! i)"
    using assms(1) b by (intro mult_right_mono) simp_all
  then have "gf + coef_b ! i - gf * coef_b ! i < 0"
    using b by (simp add: algebra_simps)
  moreover have "den gf i = (gf + coef_b ! i - gf * coef_b ! i) / coef_b ! i"
    using b by (simp add: den_def field_simps)
  ultimately show ?thesis using b by (simp add: divide_neg_pos)
qed

lemma surface_pass_3:
  assumes "wf_state s" and "\<forall>i<16. 0 < tissues s ! i" and "2292 \<le> N" and "N \<le> 2566"
  shows "ascent_step surface_planner N t s = Inr (0, step_state surface_planner (99/100) 0 t s)"
proof -
  define gf where "gf = currentGf surface_planner N"
  let ?M = "Max (comp_ceiling gf s ` {..<16})"
  have g28: "gf \<le> - 28" using assms(3) by (simp add: gf_def surface_gf)
  have dn: "den gf i < 0" if "i < 16" for i
    using den_negative[OF g28 that] .
  have nz: "\<not> (\<exists>j<16. den gf j = 0)" using dn by fastforce
  have "comp_ceiling gf s i \<le> 0" if "i < 16" for i
  proof -
    have "0 \<le> - (coef_a ! i * gf)"
      using coef_a_pos[OF that] g28 by (simp add: mult_le_0_iff)
    then have "0 \<le> tissues s ! i - coef_a ! i * gf"
      using assms(2) that by fastforce
    then show ?thesis
      using dn[OF that] by (simp add: comp_ceiling_def divide_nonneg_neg)
  qed
  then have "?M \<le> 0" by (intro Max_image_16_le) blast
  then have c: "getCeiling surface_planner s N = Inr 0"
    using nz by (simp add: getCeiling_closed gf_def[symmetric] surface_planner_fields)
  have m: "ascent_move surface_planner N (nextStop 0) = 0"
    using assms(3,4) by (simp add: ascent_move_def nextStop_def Let_def surface_planner_fields dt_def)
  show ?thesis
    by (simp add: ascent_step_closed[OF assms(1)] c m surface_gas)
qed

lemma surface_final_ceiling:
  assumes "33/10 \<le> tissues s ! 0"
  shows "\<exists>c0. getCeiling surface_planner s 0 = Inr c0 \<and> 0 < c0"
proof -
  let ?gf = "69/100 :: real"
  have gf: "currentGf surface_planner 0 = ?gf" by (simp add: surface_gf)
  have nz: "\<not> (\<exists>j<16. den ?gf j = 0)"
    using den_ge_1[of ?gf] by fastforce
  have d0: "den ?gf 0 = 69 / 100 / (505 / 1000) + 1 - 69 / 100"
    by (simp add: den_def coef_b_def)
  have "1 < comp_ceiling ?gf s 0"
    using assms by (simp add: comp_ceiling_def d0 coef_a_def field_simps)
  also have "comp_ceiling ?gf s 0 \<le> Max (comp_ceiling ?gf s ` {..<16})"
    by (rule Max_image_16_ge) simp
  finally have "0 < (Max (comp_ceiling ?gf s ` {..<16}) - 1) * 10" by simp
  then show ?thesis
    using nz by (simp add: getCeiling_closed gf surface_planner_fields)
qed

lemma surface_ascent:
  assumes "wf_state s" and "tissues_in (79/100) (13/10) s" and "103/100 \<le> tissues s ! 0"
  shows "\<exists>s' c0. ascent 3 surface_planner (6/5) t s = Some (Inr s') \<and>
           log_depth (divelog s') \<noteq> [] \<and> last (log_depth (divelog s')) = 0 \<and>
           getCeiling surface_planner s' 0 = Inr c0 \<and> 0 < c0 \<and>
           log_cons (divelog s) + 437 \<le> log_cons (divelog s')"
proof -
  define ta where "ta = t + dt"
  define tb where "tb = ta + dt"
  define sa where "sa = step_state surface_planner (99/100) 3 t s"
  have st1: "ascent_step surface_planner (6/5) t s = Inr (3, sa)"
    unfolding sa_def by (rule surface_pass_1[OF assms])
  have wa: "wf_state sa" by (simp add: sa_def wf_step_state)
  have ba: "tissues_in (79/100) (13/10) sa"
    unfolding sa_def using assms(2) by (intro tissues_in_step) simp_all
  have "103/100 \<le> decay ((3 / 10 + 1 - 0.0627) * (99/100)) 0 (tissues s ! 0)"
    using assms(3) by (intro decay_ge) simp_all
  then have pa: "103/100 \<le> tissues sa ! 0"
    by (simp add: sa_def tissues_step_state)
  from surface_pass_2[OF wa ba pa, of ta] obtain N where
    N: "2292 \<le> N" "N \<le> 2566" and
    st2': "ascent_step surface_planner 3 ta sa
            = Inr (N, step_state surface_planner (99/100) N ta sa)"
    by blast
  define sb where "sb = step_state surface_planner (99/100) N ta sa"
  have st2: "ascent_step surface_planner 3 ta sa = Inr (N, sb)"
    using st2' by (simp add: sb_def)
  have wb: "wf_state sb" by (simp add: sb_def wf_step_state)
  define PN where "PN = (N / 10 + 1 - 0.0627) * (99/100)"
  have PN: "227 \<le> PN" using N by (simp add: PN_def)
  have bb: "\<forall>i<16. 0 < tissues sb ! i"
  proof (intro allI impI)
    fix i :: nat assume i: "i < 16"
    have "79/100 \<le> tissues sa ! i" using ba i by (simp add: tissues_in_def)
    then have "79/100 \<le> decay PN i (tissues sa ! i)"
      using i PN by (intro decay_ge) simp_all
    then show "0 < tissues sb ! i"
      using i by (simp add: sb_def tissues_step_state PN_def)
  qed
  have e: "49/50 \<le> efac 0" "efac 0 \<le> 197/200" using efac_0_bounds by simp_all
  have "(1 - efac 0) * PN \<ge> (3/200) * 227"
    using e PN by (intro mult_mono) simp_all
  moreover have "0 \<le> efac 0 * tissues sa ! 0" using e pa by simp
  ultimately have "681/200 \<le> decay PN 0 (tissues sa ! 0)"
    by (simp add: decay_convex)
  then have pb: "681/200 \<le> tissues sb ! 0"
    by (simp add: sb_def tissues_step_state PN_def)
  define sc where "sc = step_state surface_planner (99/100) 0 tb sb"
  have st3: "ascent_step surface_planner N tb sb = Inr (0, sc)"
    unfolding sc_def by (rule surface_pass_3[OF wb bb N])
  have "efac 0 * tissues sb ! 0 \<ge> (49/50) * (681/200)"
    using e pb by (intro mult_mono) simp_all
  moreover have "0 \<le> (1 - efac 0) * ((0 / 10 + 1 - 0.0627) * (99/100))"
    using e by simp
  ultimately have "33/10 \<le> decay ((0 / 10 + 1 - 0.0627) * (99/100)) 0 (tissues sb ! 0)"
    unfolding decay_convex by linarith
  then have pc: "33/10 \<le> tissues sc ! 0"
    by (simp add: sc_def tissues_step_state)
  from surface_final_ceiling[OF pc] obtain c0 where
    c0: "getCeiling surface_planner sc 0 = Inr c0" "0 < c0" by blast
  have Npos: "0 < N" using N(1) by simp
  have a1: "ascent (Suc 0) surface_planner N tb sb = Some (Inr sc)"
    unfolding ascent_unfold[of 0 surface_planner N tb sb] st3
    using Npos c0 by (simp add: ascent_0)
  have a2: "ascent (Suc (Suc 0)) surface_planner 3 ta sa = Some (Inr sc)"
    unfolding ascent_unfold[of "Suc 0" surface_planner 3 ta sa] st2
    using Npos a1 by (simp add: tb_def)
  have a3': "ascent (Suc (Suc (Suc 0))) surface_planner (6/5) t s = Some (Inr sc)"
    unfolding ascent_unfold[of "Suc (Suc 0)" surface_planner "6/5" t s] st1
    using a2 by (simp add: ta_def)
  have a3: "ascent 3 surface_planner (6/5) t s = Some (Inr sc)"
    using a3' by (simp add: numeral_3_eq_3)
  have l: "log_depth (divelog sc) \<noteq> [] \<and> last (log_depth (divelog sc)) = 0"
    by (simp add: sc_def log_depth_step_state)
  have "log_cons (divelog sc) = log_cons (divelog s) + 19 * (3 / 10 + 1) * dt
      + 19 * (N / 10 + 1) * dt + 19 * (0 / 10 + 1) * dt"
    by (simp add: sc_def sb_def sa_def cons_step_state surface_planner_fields)
  then have g: "log_cons (divelog s) + 437 \<le> log_cons (divelog sc)"
    using N(1) by (simp add: dt_def field_simps)
  show ?thesis using a3 l c0 g by blast
qed

text \<open>
  Claim C1, on a valid parameter set. The run makes three passes of the ascent loop. The
  first finds a ceiling between 0 and 3 m and goes to the stop at 3 m, below the depth of
  the dive; there the gradient factor is \<open>-1.01\<close>, the ceiling is between 2292 and 2563 m,
  and the second pass goes to that stop; there every divisor is negative, the ceiling is
  0, and the third pass goes to the surface. The ceiling recomputed at the surface is
  positive, so the \<open>break\<close> is not taken, and the loop ends by its condition \<open>currD > 0\<close>:
  the last sample is at depth 0 and the ceiling at depth 0 is positive.
\<close>

theorem ascent_ends_with_positive_ceiling:
  "valid_parameters (6/5) 16 100000 19.0 15 200 1 69 1 None \<and>
   surface_planner = constructor (6/5) 16 100000 19.0 15 200 1 69 1 None \<and>
   (\<exists>s c0. run_state 3 surface_planner = Some (Inr s) \<and>
      run 3 surface_planner = Some (Inr (divelog s)) \<and>
      log_depth (divelog s) \<noteq> [] \<and> last (log_depth (divelog s)) = 0 \<and>
      getCeiling surface_planner s 0 = Inr c0 \<and> 0 < c0)"
proof -
  have v: "valid_parameters (6/5) 16 100000 19.0 15 200 1 69 1 None"
    by (simp add: valid_parameters_def)
  from surface_descent obtain c1 t1 s1 where
    d: "descent surface_planner 0 0 init_state = Inr (c1, t1, s1)" and 1: "wf_state s1"
    "tissues_in (79/100) (13/10) s1" by blast
  from surface_bottom[OF 1] obtain t2 s2 where
    b: "bottom surface_planner (t1 + bottomTime surface_planner) t1 s1 = Inr (t2, s2)" and
    2: "wf_state s2" "tissues_in (79/100) (13/10) s2" "103/100 \<le> tissues s2 ! 0" by blast
  from surface_ascent[OF 2] obtain s' c0 where
    a: "ascent 3 surface_planner (6/5) t2 s2 = Some (Inr s')" and
    l: "log_depth (divelog s') \<noteq> []" "last (log_depth (divelog s')) = 0" and
    c: "getCeiling surface_planner s' 0 = Inr c0" "0 < c0" by blast
  have rs: "run_state 3 surface_planner = Some (Inr s')"
    using d b a by (simp add: run_state_def Let_def surface_planner_fields)
  then have r: "run 3 surface_planner = Some (Inr (divelog s'))" by (simp add: run_def)
  show ?thesis using v rs r l c by (auto simp: surface_planner_def)
qed

lemma currentGf_between:
  assumes "0 < c" and "c \<le> depth p" and "gfLow p \<le> gfHigh p"
  shows "gfLow p \<le> currentGf p c \<and> currentGf p c \<le> gfHigh p"
proof -
  have d: "0 < depth p" using assms(1,2) by simp
  have r: "0 \<le> c / depth p" "c / depth p \<le> 1"
    using assms(1,2) d by (simp_all add: pos_divide_le_eq)
  have eq: "currentGf p c = gfHigh p - (gfHigh p - gfLow p) * (c / depth p)"
    using d by (simp add: currentGf_def Let_def field_simps)
  have "0 \<le> (gfHigh p - gfLow p) * (c / depth p)"
    using assms(3) r by (intro mult_nonneg_nonneg) simp_all
  moreover have "(gfHigh p - gfLow p) * (c / depth p) \<le> (gfHigh p - gfLow p) * 1"
    using assms(3) r by (intro mult_left_mono) simp_all
  ultimately show ?thesis unfolding eq by simp
qed

lemma comp_ceiling_le_1_iff:
  assumes "0 \<le> gf" and "i < 16"
  shows "(comp_ceiling gf s i \<le> 1) = (tissues s ! i \<le> coef_a ! i * gf + den gf i)"
proof -
  have "0 < den gf i" using den_pos[OF assms] .
  then show ?thesis by (auto simp: comp_ceiling_def pos_divide_le_eq)
qed

lemma tolerated_mono:
  assumes "0 \<le> gf" and "gf \<le> gf'" and "i < 16"
  shows "coef_a ! i * gf + den gf i \<le> coef_a ! i * gf' + den gf' i"
proof -
  have b: "0 < coef_b ! i" "coef_b ! i < 1" using coef_b_range[OF assms(3)] by simp_all
  have a: "0 < coef_a ! i" using coef_a_pos[OF assms(3)] .
  have "gf \<le> gf / coef_b ! i" "gf' - gf \<le> (gf' - gf) / coef_b ! i"
    using assms(1,2) b by (simp_all add: pos_le_divide_eq mult_left_le)
  then have "gf / coef_b ! i - gf \<le> gf' / coef_b ! i - gf'"
    by (simp add: diff_divide_distrib)
  moreover have "coef_a ! i * gf \<le> coef_a ! i * gf'" using a assms(2) by simp
  ultimately show ?thesis by (simp add: den_def)
qed

text \<open>
  Where the gradient factors are in order and the last pass of the ascent starts no deeper
  than the dive, the ceiling recomputed at the surface is 0: there the re-check of line 133
  cannot fail. On the parameter set above the last pass starts far below the dive.
\<close>

lemma surface_ceiling_clear:
  assumes "wf_state s" and "0 < c" and "c \<le> depth p"
    and "0 \<le> gfLow p" and "gfLow p \<le> gfHigh p"
    and "fN2Bottom p \<le> 1" and "fN2Deco p \<le> 1"
    and "ascent_step p c t s = Inr (0, s')"
  shows "getCeiling p s' 0 = Inr 0"
proof -
  let ?gf = "currentGf p c"
  let ?G = "gfHigh p"
  from assms(1,8) obtain ceil fN2 where
    c: "getCeiling p s c = Inr ceil" and m: "ascent_move p c (nextStop ceil) = 0" and
    g: "activeN2 p 0 True = Inr fN2" and s': "s' = step_state p fN2 0 t s"
    by (auto simp: ascent_step_closed split: sum.splits)
  have gf: "0 \<le> ?gf" "?gf \<le> ?G"
    using currentGf_between[OF assms(2,3,5)] assms(4) by simp_all
  have G: "0 \<le> ?G" using assms(4,5) by simp
  have "nextStop ceil \<le> 0" using ascent_move_ge[of "nextStop ceil" p c] m by simp
  then have "ceil \<le> 0" using nextStop_bounds[of ceil] by simp
  then have M: "Max (comp_ceiling ?gf s ` {..<16}) \<le> 1"
    using c by (auto simp: getCeiling_closed split: if_splits)
  have f: "fN2 \<le> 1"
    using g assms(6,7) by (auto simp: activeN2_def split: sum.splits if_splits)
  have "comp_ceiling ?G s' i \<le> 1" if i: "i < 16" for i
  proof -
    have "comp_ceiling ?gf s i \<le> Max (comp_ceiling ?gf s ` {..<16})"
      using i by (rule Max_image_16_ge)
    then have "comp_ceiling ?gf s i \<le> 1" using M by simp
    then have "tissues s ! i \<le> coef_a ! i * ?gf + den ?gf i"
      using comp_ceiling_le_1_iff[OF gf(1) i] by simp
    also have "\<dots> \<le> coef_a ! i * ?G + den ?G i"
      using gf i by (rule tolerated_mono)
    finally have old: "tissues s ! i \<le> coef_a ! i * ?G + den ?G i" .
    have "0 \<le> coef_a ! i * ?G" using coef_a_pos[OF i] G by simp
    then have one: "1 \<le> coef_a ! i * ?G + den ?G i"
      using den_ge_1[OF G i] by simp
    have "(0 / 10 + 1 - 0.0627) * fN2 \<le> 1" using f by simp
    then have "(0 / 10 + 1 - 0.0627) * fN2 \<le> coef_a ! i * ?G + den ?G i"
      using one by simp
    then have "decay ((0 / 10 + 1 - 0.0627) * fN2) i (tissues s ! i)
        \<le> coef_a ! i * ?G + den ?G i"
      using i old by (intro decay_le) simp_all
    then have "tissues s' ! i \<le> coef_a ! i * ?G + den ?G i"
      using i by (simp add: s' tissues_step_state)
    then show ?thesis using comp_ceiling_le_1_iff[OF G i] by simp
  qed
  then have "Max (comp_ceiling ?G s' ` {..<16}) \<le> 1"
    by (intro Max_image_16_le) blast
  moreover have "\<not> (\<exists>j<16. den ?G j = 0)"
    using den_ge_1[OF G] by fastforce
  moreover have "depth p \<noteq> 0" using assms(2,3) by simp
  moreover have "currentGf p 0 = ?G" by (simp add: currentGf_def Let_def)
  ultimately show ?thesis by (simp add: getCeiling_closed)
qed

subsection \<open>A deeper dive that consumes less\<close>

lemma descent_cons_nonneg:
  assumes "wf_state s" and "0 \<le> sac p" and "0 \<le> c" and "0 \<le> log_cons (divelog s)"
    and "descent p c t s = Inr (c', t', s')"
  shows "0 \<le> log_cons (divelog s')"
proof -
  define I where "I = (\<lambda>(c::real) (t::real) (s::state). 0 \<le> c \<and> 0 \<le> log_cons (divelog s))"
  have "\<exists>c' t' s'. descent p c t s = Inr (c', t', s') \<and> wf_state s' \<and> I c' t' s' \<and> \<not> c' < depth p"
  proof (rule descent_rule[OF assms(1)])
    show "I c t s" using assms(3,4) by (simp add: I_def)
    fix c t s
    assume i: "I c t s"
    have "0 \<le> sac p * (c / 10 + 1) * dt"
      using i assms(2) by (intro mult_nonneg_nonneg) (simp_all add: I_def dt_def)
    then show "I (c + 15 * dt) (t + dt) (step_state p (fN2Bottom p) c t s)"
      using i by (simp add: I_def cons_step_state dt_def)
  qed
  then show ?thesis using assms(5) by (auto simp: I_def)
qed

lemma bottom_cons_nonneg:
  assumes "wf_state s" and "0 \<le> sac p" and "0 \<le> depth p" and "0 \<le> log_cons (divelog s)"
    and "bottom p tEnd t s = Inr (t', s')"
  shows "0 \<le> log_cons (divelog s')"
proof -
  define I where "I = (\<lambda>(t::real) (s::state). 0 \<le> log_cons (divelog s))"
  have "\<exists>t' s'. bottom p tEnd t s = Inr (t', s') \<and> wf_state s' \<and> I t' s' \<and> \<not> t' < tEnd"
  proof (rule bottom_rule[OF assms(1)])
    show "I t s" using assms(4) by (simp add: I_def)
    fix t s
    assume i: "I t s"
    have "0 \<le> sac p * (depth p / 10 + 1) * dt"
      using assms(2,3) by (intro mult_nonneg_nonneg) (simp_all add: dt_def)
    then show "I (t + dt) (step_state p (fN2Bottom p) (depth p) t s)"
      using i by (simp add: I_def cons_step_state)
  qed
  then show ?thesis using assms(5) by (auto simp: I_def)
qed

lemma surface_cons:
  "\<exists>s. run_state 3 surface_planner = Some (Inr s) \<and> 437 \<le> log_cons (divelog s)"
proof -
  from surface_descent obtain c1 t1 s1 where
    d: "descent surface_planner 0 0 init_state = Inr (c1, t1, s1)" and 1: "wf_state s1"
    "tissues_in (79/100) (13/10) s1" by blast
  have c1: "0 \<le> log_cons (divelog s1)"
    by (rule descent_cons_nonneg[OF wf_init_state _ _ _ d])
       (simp_all add: surface_planner_fields init_state_def)
  from surface_bottom[OF 1] obtain t2 s2 where
    b: "bottom surface_planner (t1 + bottomTime surface_planner) t1 s1 = Inr (t2, s2)" and
    2: "wf_state s2" "tissues_in (79/100) (13/10) s2" "103/100 \<le> tissues s2 ! 0" by blast
  have c2: "0 \<le> log_cons (divelog s2)"
    by (rule bottom_cons_nonneg[OF 1(1) _ _ c1 b]) (simp_all add: surface_planner_fields)
  from surface_ascent[OF 2] obtain s' where
    a: "ascent 3 surface_planner (6/5) t2 s2 = Some (Inr s')" and
    c: "log_cons (divelog s2) + 437 \<le> log_cons (divelog s')" by blast
  have rs: "run_state 3 surface_planner = Some (Inr s')"
    using d b a by (simp add: run_state_def Let_def surface_planner_fields)
  show ?thesis using rs c c2 by (intro exI[of _ s']) simp
qed

lemma deeper_planner_fields:
  "depth deeper_planner = 13/10" "bottomTime deeper_planner = 16"
  "vUp deeper_planner = 100000" "sac deeper_planner = 19"
  "gfLow deeper_planner = 1/100" "gfHigh deeper_planner = 69/100"
  "fO2Bottom deeper_planner = 1/100" "fN2Bottom deeper_planner = 99/100"
  "fO2Deco deeper_planner = 1/100" "fN2Deco deeper_planner = 99/100"
  by (simp_all add: deeper_planner_def constructor_def Let_def)

lemma deeper_gf: "currentGf deeper_planner d = 69/100 - 34/65 * d"
  by (simp add: currentGf_def Let_def deeper_planner_fields)

lemma deeper_gas: "activeN2 deeper_planner d isDeco = Inr (99/100)"
  by (simp add: activeN2_def getSwitchDepth_def deeper_planner_fields)

lemma deeper_descent:
  "\<exists>s1. descent deeper_planner 0 0 init_state = Inr (3/2, 1/10, s1) \<and> wf_state s1 \<and>
     tissues_in (79/100) (13/10) s1 \<and> log_cons (divelog s1) = 19/10"
proof -
  define s1 where "s1 = step_state deeper_planner (99/100) 0 0 init_state"
  have "descent deeper_planner 0 0 init_state = descent deeper_planner (3/2) (1/10) s1"
    by (subst descent.simps)
       (simp add: update_False[OF wf_init_state] deeper_planner_fields s1_def dt_def)
  also have "\<dots> = Inr (3/2, 1/10, s1)"
    by (subst descent.simps) (simp add: deeper_planner_fields)
  finally have d: "descent deeper_planner 0 0 init_state = Inr (3/2, 1/10, s1)" .
  have w: "wf_state s1" by (simp add: s1_def wf_step_state)
  have "\<forall>x\<in>set (tissues init_state). 79/100 \<le> x \<and> x \<le> 13/10" by (simp add: init_state_def)
  moreover have "length (tissues init_state) = 16" by (simp add: init_state_def)
  ultimately have "tissues_in (79/100) (13/10) init_state"
    unfolding tissues_in_def by (metis nth_mem)
  then have b: "tissues_in (79/100) (13/10) s1"
    unfolding s1_def by (intro tissues_in_step) simp_all
  have c: "log_cons (divelog s1) = 19/10"
    by (simp add: s1_def cons_step_state deeper_planner_fields init_state_def dt_def)
  show ?thesis using d w b c by blast
qed

lemma deeper_bottom:
  assumes "wf_state s1" and "tissues_in (79/100) (13/10) s1"
  shows "\<exists>t2 s2. bottom deeper_planner (t1 + bottomTime deeper_planner) t1 s1 = Inr (t2, s2) \<and>
     wf_state s2 \<and> tissues_in (79/100) (13/10) s2 \<and> 103/100 \<le> tissues s2 ! 0 \<and>
     log_cons (divelog s2) \<le> log_cons (divelog s1) + 344"
proof -
  define P :: real where "P = (13/10 / 10 + 1 - 0.0627) * (99/100)"
  define q :: real where "q = 19 * (13/10 / 10 + 1) * dt"
  define I where "I = (\<lambda>(t::real) (s::state). tissues_in (79/100) (13/10) s \<and>
      (\<exists>k::nat. t = t1 + real k * dt \<and> k \<le> 160 \<and>
         P - tissues s ! 0 \<le> (P - 79/100) * efac 0 ^ k \<and>
         log_cons (divelog s) = log_cons (divelog s1) + real k * q))"
  have Ppos: "0 \<le> P - 79/100" by (simp add: P_def)
  have e: "0 < efac 0" using efac_range[of 0] by simp
  have "\<exists>t' s'. bottom deeper_planner (t1 + bottomTime deeper_planner) t1 s1 = Inr (t', s') \<and>
      wf_state s' \<and> I t' s' \<and> \<not> t' < t1 + bottomTime deeper_planner"
  proof (rule bottom_rule[OF assms(1)])
    have "79/100 \<le> tissues s1 ! 0" using assms(2) by (simp add: tissues_in_def)
    then show "I t1 s1"
      unfolding I_def using assms(2) by (intro conjI exI[of _ 0]) simp_all
    fix t s
    assume i: "I t s" and lt: "t < t1 + bottomTime deeper_planner"
    then obtain k :: nat where k: "t = t1 + real k * dt" "k \<le> 160"
      "P - tissues s ! 0 \<le> (P - 79/100) * efac 0 ^ k"
      "log_cons (divelog s) = log_cons (divelog s1) + real k * q"
      unfolding I_def by blast
    have "real k < 160" using k(1) lt by (simp add: deeper_planner_fields dt_def)
    then have k160: "Suc k \<le> 160" by simp
    have "P - decay P 0 (tissues s ! 0) = (P - tissues s ! 0) * efac 0"
      by (rule decay_gap)
    also have "\<dots> \<le> ((P - 79/100) * efac 0 ^ k) * efac 0"
      using k(3) e by (intro mult_right_mono) simp_all
    finally have g: "P - decay P 0 (tissues s ! 0) \<le> (P - 79/100) * efac 0 ^ Suc k"
      by (simp add: mult_ac)
    have t: "t + dt = t1 + real (Suc k) * dt"
      using k(1) by (simp add: algebra_simps)
    have b: "tissues_in (79/100) (13/10) (step_state deeper_planner (99/100) (13/10) t s)"
      using i by (intro tissues_in_step) (simp_all add: I_def)
    have c: "log_cons (divelog (step_state deeper_planner (99/100) (13/10) t s))
        = log_cons (divelog s1) + real (Suc k) * q"
      using k(4) by (simp add: cons_step_state deeper_planner_fields q_def algebra_simps)
    have "\<exists>k'::nat. t + dt = t1 + real k' * dt \<and> k' \<le> 160 \<and>
        P - tissues (step_state deeper_planner (99/100) (13/10) t s) ! 0
          \<le> (P - 79/100) * efac 0 ^ k' \<and>
        log_cons (divelog (step_state deeper_planner (99/100) (13/10) t s))
          = log_cons (divelog s1) + real k' * q"
      using g t c k160 by (intro exI[of _ "Suc k"]) (simp add: tissues_step_state P_def)
    then show "I (t + dt) (step_state deeper_planner (fN2Bottom deeper_planner)
        (depth deeper_planner) t s)"
      using b by (simp add: I_def deeper_planner_fields)
  qed
  then obtain t2 s2 where r: "bottom deeper_planner (t1 + bottomTime deeper_planner) t1 s1 = Inr (t2, s2)"
    "wf_state s2" and i2: "I t2 s2" and fin: "\<not> t2 < t1 + bottomTime deeper_planner"
    by blast
  from i2 obtain k :: nat where k: "t2 = t1 + real k * dt" "k \<le> 160"
    "P - tissues s2 ! 0 \<le> (P - 79/100) * efac 0 ^ k"
    "log_cons (divelog s2) = log_cons (divelog s1) + real k * q"
    unfolding I_def by blast
  have "160 \<le> real k" using k(1) fin by (simp add: deeper_planner_fields dt_def)
  then have "160 \<le> k" by simp
  then have "efac 0 ^ k \<le> 1 / 16" by (rule efac_0_pow_ge_160)
  then have "(P - 79/100) * efac 0 ^ k \<le> (P - 79/100) * (1 / 16)"
    using Ppos by (intro mult_left_mono) simp_all
  then have "P - tissues s2 ! 0 \<le> (P - 79/100) * (1 / 16)" using k(3) by simp
  then have p: "103/100 \<le> tissues s2 ! 0" by (simp add: P_def)
  have "real k * q \<le> 160 * q"
    using k(2) by (intro mult_right_mono) (simp_all add: q_def dt_def)
  then have c: "log_cons (divelog s2) \<le> log_cons (divelog s1) + 344"
    using k(4) by (simp add: q_def dt_def)
  have b: "tissues_in (79/100) (13/10) s2" using i2 by (simp add: I_def)
  show ?thesis using r b p c by blast
qed

lemma deeper_pass_1:
  assumes "wf_state s" and "tissues_in (79/100) (13/10) s" and "103/100 \<le> tissues s ! 0"
  shows "ascent_step deeper_planner (13/10) t s
           = Inr (3, step_state deeper_planner (99/100) 3 t s)"
proof -
  let ?gf = "1/100 :: real"
  let ?M = "Max (comp_ceiling ?gf s ` {..<16})"
  have gf: "currentGf deeper_planner (13/10) = ?gf" by (simp add: deeper_gf)
  have nz: "\<not> (\<exists>j<16. den ?gf j = 0)"
    using den_ge_1[of ?gf] by fastforce
  have d0: "den ?gf 0 = 1 / 100 / (505 / 1000) + 1 - 1 / 100"
    by (simp add: den_def coef_b_def)
  have "1 < comp_ceiling ?gf s 0"
    using assms(3) by (simp add: comp_ceiling_def d0 coef_a_def field_simps)
  also have "comp_ceiling ?gf s 0 \<le> ?M"
    by (rule Max_image_16_ge) simp
  finally have lo: "1 < ?M" .
  have "comp_ceiling ?gf s i \<le> 13/10" if "i < 16" for i
  proof -
    have b: "79/100 \<le> tissues s ! i" "tissues s ! i \<le> 13/10"
      using assms(2) that by (simp_all add: tissues_in_def)
    have "comp_ceiling ?gf s i \<le> tissues s ! i"
      using b that by (intro comp_ceiling_le_tissue) simp_all
    then show ?thesis using b by simp
  qed
  then have hi: "?M \<le> 13/10" by (intro Max_image_16_le) blast
  define ceil where "ceil = (?M - 1) * 10"
  have c: "getCeiling deeper_planner s (13/10) = Inr ceil"
    using nz lo by (simp add: getCeiling_closed gf deeper_planner_fields ceil_def)
  have n: "nextStop ceil = 3"
    using nextStop_multiple[of 1 ceil] lo hi by (simp add: ceil_def)
  have m: "ascent_move deeper_planner (13/10) 3 = 3"
    by (simp add: ascent_move_def)
  show ?thesis
    by (simp add: ascent_step_closed[OF assms(1)] c n m deeper_gas)
qed

lemma deeper_pass_2:
  assumes "wf_state s" and "tissues_in (79/100) (13/10) s" and "103/100 \<le> tissues s ! 0"
  shows "\<exists>N. 144 \<le> N \<and> N \<le> 179 \<and>
           ascent_step deeper_planner 3 t s = Inr (N, step_state deeper_planner (99/100) N t s)"
proof -
  let ?gf = "- (1143/1300) :: real"
  let ?M = "Max (comp_ceiling ?gf s ` {..<16})"
  have gf: "currentGf deeper_planner 3 = ?gf" by (simp add: deeper_gf)
  have dlo: "13/100 \<le> den ?gf i" if "i < 16" for i
  proof -
    have b: "101/200 \<le> coef_b ! i" using coef_b_bounds[OF that] by simp
    then have "1143/1300 / coef_b ! i \<le> 871/500"
      by (simp add: pos_divide_le_eq)
    then show ?thesis by (simp add: den_def)
  qed
  have nz: "\<not> (\<exists>j<16. den ?gf j = 0)"
    using dlo by fastforce
  have d0: "den ?gf 0 = 18143/131300" by (simp add: den_def coef_b_def)
  have "(103/100 + 12599/10000 * (1143/1300)) / (18143/131300) \<le> comp_ceiling ?gf s 0"
    using assms(3) by (simp add: comp_ceiling_def d0 coef_a_def)
  also have "comp_ceiling ?gf s 0 \<le> ?M"
    by (rule Max_image_16_ge) simp
  finally have lo: "1547/100 \<le> ?M" by simp
  have "comp_ceiling ?gf s i \<le> (13/10 + 12599/10000 * (1143/1300)) / (13/100)" if "i < 16" for i
  proof -
    have b: "79/100 \<le> tissues s ! i" "tissues s ! i \<le> 13/10"
      using assms(2) that by (simp_all add: tissues_in_def)
    have a: "0 < coef_a ! i" "coef_a ! i \<le> 12599/10000"
      using coef_a_pos[OF that] coef_a_le[OF that] by simp_all
    have num: "tissues s ! i - coef_a ! i * ?gf \<le> 13/10 + 12599/10000 * (1143/1300)"
      using a b by simp
    have pos: "0 \<le> tissues s ! i - coef_a ! i * ?gf"
      using a b by simp
    have "(tissues s ! i - coef_a ! i * ?gf) / den ?gf i
        \<le> (13/10 + 12599/10000 * (1143/1300)) / (13/100)"
      using pos num dlo[OF that] by (intro frac_le) simp_all
    then show ?thesis by (simp add: comp_ceiling_def)
  qed
  then have "?M \<le> (13/10 + 12599/10000 * (1143/1300)) / (13/100)"
    by (intro Max_image_16_le) blast
  then have hi: "?M \<le> 1853/100" by simp
  define ceil where "ceil = (?M - 1) * 10"
  have c: "getCeiling deeper_planner s 3 = Inr ceil"
    using nz lo by (simp add: getCeiling_closed gf deeper_planner_fields ceil_def)
  have cb: "144 \<le> ceil" "ceil \<le> 176"
    using lo hi by (simp_all add: ceil_def)
  have nb: "144 \<le> nextStop ceil" "nextStop ceil \<le> 179"
    using nextStop_bounds[of ceil] cb by simp_all
  have m: "ascent_move deeper_planner 3 (nextStop ceil) = nextStop ceil"
    using nb by (simp add: ascent_move_def)
  have "ascent_step deeper_planner 3 t s
      = Inr (nextStop ceil, step_state deeper_planner (99/100) (nextStop ceil) t s)"
    by (simp add: ascent_step_closed[OF assms(1)] c m deeper_gas)
  then show ?thesis using nb by blast
qed

lemma deeper_pass_3:
  assumes "wf_state s" and "\<forall>i<16. 0 < tissues s ! i" and "144 \<le> N" and "N \<le> 179"
  shows "ascent_step deeper_planner N t s = Inr (0, step_state deeper_planner (99/100) 0 t s)"
proof -
  define gf where "gf = currentGf deeper_planner N"
  let ?M = "Max (comp_ceiling gf s ` {..<16})"
  have g28: "gf \<le> - 28" using assms(3) by (simp add: gf_def deeper_gf)
  have dn: "den gf i < 0" if "i < 16" for i
    using den_negative[OF g28 that] .
  have nz: "\<not> (\<exists>j<16. den gf j = 0)" using dn by fastforce
  have "comp_ceiling gf s i \<le> 0" if "i < 16" for i
  proof -
    have "0 \<le> - (coef_a ! i * gf)"
      using coef_a_pos[OF that] g28 by (simp add: mult_le_0_iff)
    then have "0 \<le> tissues s ! i - coef_a ! i * gf"
      using assms(2) that by fastforce
    then show ?thesis
      using dn[OF that] by (simp add: comp_ceiling_def divide_nonneg_neg)
  qed
  then have "?M \<le> 0" by (intro Max_image_16_le) blast
  then have c: "getCeiling deeper_planner s N = Inr 0"
    using nz by (simp add: getCeiling_closed gf_def[symmetric] deeper_planner_fields)
  have m: "ascent_move deeper_planner N (nextStop 0) = 0"
    using assms(3,4) by (simp add: ascent_move_def nextStop_def Let_def deeper_planner_fields dt_def)
  show ?thesis
    by (simp add: ascent_step_closed[OF assms(1)] c m deeper_gas)
qed

lemma deeper_ascent:
  assumes "wf_state s" and "tissues_in (79/100) (13/10) s" and "103/100 \<le> tissues s ! 0"
  shows "\<exists>s'. ascent 3 deeper_planner (13/10) t s = Some (Inr s') \<and>
           log_cons (divelog s') \<le> log_cons (divelog s) + 41"
proof -
  define ta where "ta = t + dt"
  define tb where "tb = ta + dt"
  define sa where "sa = step_state deeper_planner (99/100) 3 t s"
  have st1: "ascent_step deeper_planner (13/10) t s = Inr (3, sa)"
    unfolding sa_def by (rule deeper_pass_1[OF assms])
  have wa: "wf_state sa" by (simp add: sa_def wf_step_state)
  have ba: "tissues_in (79/100) (13/10) sa"
    unfolding sa_def using assms(2) by (intro tissues_in_step) simp_all
  have "103/100 \<le> decay ((3 / 10 + 1 - 0.0627) * (99/100)) 0 (tissues s ! 0)"
    using assms(3) by (intro decay_ge) simp_all
  then have pa: "103/100 \<le> tissues sa ! 0"
    by (simp add: sa_def tissues_step_state)
  from deeper_pass_2[OF wa ba pa, of ta] obtain N where
    N: "144 \<le> N" "N \<le> 179" and
    st2': "ascent_step deeper_planner 3 ta sa
            = Inr (N, step_state deeper_planner (99/100) N ta sa)"
    by blast
  define sb where "sb = step_state deeper_planner (99/100) N ta sa"
  have st2: "ascent_step deeper_planner 3 ta sa = Inr (N, sb)"
    using st2' by (simp add: sb_def)
  have wb: "wf_state sb" by (simp add: sb_def wf_step_state)
  define PN where "PN = (N / 10 + 1 - 0.0627) * (99/100)"
  have PN: "15 \<le> PN" using N by (simp add: PN_def)
  have bb: "\<forall>i<16. 0 < tissues sb ! i"
  proof (intro allI impI)
    fix i :: nat assume i: "i < 16"
    have "79/100 \<le> tissues sa ! i" using ba i by (simp add: tissues_in_def)
    then have "79/100 \<le> decay PN i (tissues sa ! i)"
      using i PN by (intro decay_ge) simp_all
    then show "0 < tissues sb ! i"
      using i by (simp add: sb_def tissues_step_state PN_def)
  qed
  define sc where "sc = step_state deeper_planner (99/100) 0 tb sb"
  have st3: "ascent_step deeper_planner N tb sb = Inr (0, sc)"
    unfolding sc_def by (rule deeper_pass_3[OF wb bb N])
  have "\<not> (\<exists>j<16. den (69/100) j = 0)"
    using den_ge_1[of "69/100"] by fastforce
  then obtain c0 where c0: "getCeiling deeper_planner sc 0 = Inr c0"
    by (simp add: getCeiling_closed deeper_gf deeper_planner_fields)
  have Npos: "0 < N" using N(1) by simp
  have a1: "ascent (Suc 0) deeper_planner N tb sb = Some (Inr sc)"
    unfolding ascent_unfold[of 0 deeper_planner N tb sb] st3
    using Npos c0 by (simp add: ascent_0)
  have a2: "ascent (Suc (Suc 0)) deeper_planner 3 ta sa = Some (Inr sc)"
    unfolding ascent_unfold[of "Suc 0" deeper_planner 3 ta sa] st2
    using Npos a1 by (simp add: tb_def)
  have a3': "ascent (Suc (Suc (Suc 0))) deeper_planner (13/10) t s = Some (Inr sc)"
    unfolding ascent_unfold[of "Suc (Suc 0)" deeper_planner "13/10" t s] st1
    using a2 by (simp add: ta_def)
  have a3: "ascent 3 deeper_planner (13/10) t s = Some (Inr sc)"
    using a3' by (simp add: numeral_3_eq_3)
  have "log_cons (divelog sc) = log_cons (divelog s) + 19 * (3 / 10 + 1) * dt
      + 19 * (N / 10 + 1) * dt + 19 * (0 / 10 + 1) * dt"
    by (simp add: sc_def sb_def sa_def cons_step_state deeper_planner_fields)
  then have g: "log_cons (divelog sc) \<le> log_cons (divelog s) + 41"
    using N(2) by (simp add: dt_def field_simps)
  show ?thesis using a3 g by blast
qed

lemma deeper_cons:
  "\<exists>s. run_state 3 deeper_planner = Some (Inr s) \<and> log_cons (divelog s) \<le> 387"
proof -
  from deeper_descent obtain s1 where
    d: "descent deeper_planner 0 0 init_state = Inr (3/2, 1/10, s1)" and 1: "wf_state s1"
    "tissues_in (79/100) (13/10) s1" and c1: "log_cons (divelog s1) = 19/10" by blast
  from deeper_bottom[OF 1] obtain t2 s2 where
    b: "bottom deeper_planner (1/10 + bottomTime deeper_planner) (1/10) s1 = Inr (t2, s2)" and
    2: "wf_state s2" "tissues_in (79/100) (13/10) s2" "103/100 \<le> tissues s2 ! 0" and
    c2: "log_cons (divelog s2) \<le> log_cons (divelog s1) + 344" by blast
  from deeper_ascent[OF 2] obtain s' where
    a: "ascent 3 deeper_planner (13/10) t2 s2 = Some (Inr s')" and
    c3: "log_cons (divelog s') \<le> log_cons (divelog s2) + 41" by blast
  have rs: "run_state 3 deeper_planner = Some (Inr s')"
    using d b a by (simp add: run_state_def Let_def deeper_planner_fields)
  show ?thesis using rs c1 c2 c3 by (intro exI[of _ s']) simp
qed

subsection \<open>The stops of the ascent\<close>

lemma ascent_passes:
  assumes "wf_state s" and "ascent n p c t s = Some (Inr s')"
  shows "\<exists>ds ss. length ss = Suc (length ds) \<and> ss ! 0 = s \<and> last ss = s' \<and>
      log_depth (divelog s') = log_depth (divelog s) @ ds \<and> (0 < c \<longrightarrow> ds \<noteq> []) \<and>
      (\<forall>k<length ds. 0 < (c # ds) ! k \<and>
         (\<exists>ceil. getCeiling p (ss ! k) ((c # ds) ! k) = Inr ceil \<and>
            ds ! k = ascent_move p ((c # ds) ! k) (nextStop ceil) \<and> nextStop ceil \<le> ds ! k) \<and>
         update p (ds ! k) (t + real k * dt) True (ss ! k) = Inr (ss ! Suc k))"
  using assms
proof (induction n arbitrary: c t s)
  case 0
  then have "s' = s \<and> \<not> 0 < c" by (auto simp: ascent_0 split: if_splits)
  then show ?case by (intro exI[of _ "[]"] exI[of _ "[s]"]) simp
next
  case (Suc m)
  show ?case
  proof (cases "c > 0")
    case False
    then have "s' = s" using Suc.prems(2) by (simp add: ascent_unfold)
    then show ?thesis using False by (intro exI[of _ "[]"] exI[of _ "[s]"]) simp
  next
    case True
    from Suc.prems(2) True obtain c1 s1 where
      st: "ascent_step p c t s = Inr (c1, s1)"
      by (cases "ascent_step p c t s") (auto simp: ascent_unfold)
    from st obtain ceil fN2 where
      ce: "getCeiling p s c = Inr ceil" and
      gas: "activeN2 p c1 True = Inr fN2" and
      c1: "c1 = ascent_move p c (nextStop ceil)" and
      s1: "s1 = step_state p fN2 c1 t s"
      by (auto simp: ascent_step_closed[OF Suc.prems(1)] split: sum.splits)
    have up: "update p c1 t True s = Inr s1"
      by (simp add: update_eq[OF Suc.prems(1)] gas s1)
    have w1: "wf_state s1" by (simp add: s1 wf_step_state)
    have ge: "nextStop ceil \<le> c1" unfolding c1 by (rule ascent_move_ge)
    have l1: "log_depth (divelog s1) = log_depth (divelog s) @ [c1]"
      by (simp add: s1 log_depth_step_state)
    have rest: "ascent m p c1 (t + dt) s1 = Some (Inr s') \<or> s' = s1"
      using Suc.prems(2) True st by (auto simp: ascent_unfold split: sum.splits if_splits)
    have "\<exists>ds ss. length ss = Suc (length ds) \<and> ss ! 0 = s1 \<and> last ss = s' \<and>
      log_depth (divelog s') = log_depth (divelog s1) @ ds \<and>
      (\<forall>k<length ds. 0 < (c1 # ds) ! k \<and>
         (\<exists>ceil. getCeiling p (ss ! k) ((c1 # ds) ! k) = Inr ceil \<and>
            ds ! k = ascent_move p ((c1 # ds) ! k) (nextStop ceil) \<and> nextStop ceil \<le> ds ! k) \<and>
         update p (ds ! k) (t + dt + real k * dt) True (ss ! k) = Inr (ss ! Suc k))"
    proof (cases "ascent m p c1 (t + dt) s1 = Some (Inr s')")
      case True
      show ?thesis using Suc.IH[OF w1 True] by blast
    next
      case False
      then have "s' = s1" using rest by simp
      then show ?thesis by (intro exI[of _ "[]"] exI[of _ "[s1]"]) simp
    qed
    then obtain ds ss where
      len: "length ss = Suc (length ds)" and hd: "ss ! 0 = s1" and la: "last ss = s'" and
      lg: "log_depth (divelog s') = log_depth (divelog s1) @ ds" and
      al: "\<forall>k<length ds. 0 < (c1 # ds) ! k \<and>
         (\<exists>ceil. getCeiling p (ss ! k) ((c1 # ds) ! k) = Inr ceil \<and>
            ds ! k = ascent_move p ((c1 # ds) ! k) (nextStop ceil) \<and> nextStop ceil \<le> ds ! k) \<and>
         update p (ds ! k) (t + dt + real k * dt) True (ss ! k) = Inr (ss ! Suc k)"
      by blast
    have ne: "ss \<noteq> []" using len by auto
    have "\<forall>k<length (c1 # ds). 0 < (c # c1 # ds) ! k \<and>
         (\<exists>ceil. getCeiling p ((s # ss) ! k) ((c # c1 # ds) ! k) = Inr ceil \<and>
            (c1 # ds) ! k = ascent_move p ((c # c1 # ds) ! k) (nextStop ceil) \<and>
            nextStop ceil \<le> (c1 # ds) ! k) \<and>
         update p ((c1 # ds) ! k) (t + real k * dt) True ((s # ss) ! k) = Inr ((s # ss) ! Suc k)"
    proof (intro allI impI)
      fix k assume k: "k < length (c1 # ds)"
      show "0 < (c # c1 # ds) ! k \<and>
         (\<exists>ceil. getCeiling p ((s # ss) ! k) ((c # c1 # ds) ! k) = Inr ceil \<and>
            (c1 # ds) ! k = ascent_move p ((c # c1 # ds) ! k) (nextStop ceil) \<and>
            nextStop ceil \<le> (c1 # ds) ! k) \<and>
         update p ((c1 # ds) ! k) (t + real k * dt) True ((s # ss) ! k) = Inr ((s # ss) ! Suc k)"
      proof (cases k)
        case 0
        then show ?thesis using True ce c1 ge up hd by simp
      next
        case (Suc j)
        then have j: "j < length ds" using k by simp
        have tm: "t + real (Suc j) * dt = t + dt + real j * dt" by (simp add: algebra_simps)
        show ?thesis using al j unfolding Suc tm by simp
      qed
    qed
    moreover have "length (s # ss) = Suc (length (c1 # ds))" using len by simp
    moreover have "(s # ss) ! 0 = s" by simp
    moreover have "last (s # ss) = s'" using la ne by simp
    moreover have "log_depth (divelog s') = log_depth (divelog s) @ (c1 # ds)"
      using lg l1 by simp
    moreover have "0 < c \<longrightarrow> c1 # ds \<noteq> []" by simp
    ultimately show ?thesis by blast
  qed
qed

lemma descent_bottom_wf:
  assumes "descent p 0 0 init_state = Inr (c1, t1, s1)"
    and "bottom p tEnd t1 s1 = Inr (t2, s2)"
  shows "wf_state s1 \<and> wf_state s2"
proof -
  have "\<exists>c' t' s'. descent p 0 0 init_state = Inr (c', t', s') \<and> wf_state s' \<and> True \<and>
      \<not> c' < depth p"
    by (rule descent_rule[OF wf_init_state]) simp_all
  then have w1: "wf_state s1" using assms(1) by auto
  have "\<exists>t' s'. bottom p tEnd t1 s1 = Inr (t', s') \<and> wf_state s' \<and> True \<and> \<not> t' < tEnd"
    by (rule bottom_rule[OF w1]) simp_all
  then show ?thesis using assms(2) w1 by auto
qed

lemma surface_ceiling_1:
  assumes "tissues_in (79/100) (13/10) s" and "103/100 \<le> tissues s ! 0"
  shows "\<exists>ceil. getCeiling surface_planner s (6/5) = Inr ceil \<and> 0 < ceil \<and> ceil \<le> 3"
proof -
  let ?gf = "1/100 :: real"
  let ?M = "Max (comp_ceiling ?gf s ` {..<16})"
  have gf: "currentGf surface_planner (6/5) = ?gf" by (simp add: surface_gf)
  have nz: "\<not> (\<exists>j<16. den ?gf j = 0)"
    using den_ge_1[of ?gf] by fastforce
  have d0: "den ?gf 0 = 1 / 100 / (505 / 1000) + 1 - 1 / 100"
    by (simp add: den_def coef_b_def)
  have "1 < comp_ceiling ?gf s 0"
    using assms(2) by (simp add: comp_ceiling_def d0 coef_a_def field_simps)
  also have "comp_ceiling ?gf s 0 \<le> ?M"
    by (rule Max_image_16_ge) simp
  finally have lo: "1 < ?M" .
  have "comp_ceiling ?gf s i \<le> 13/10" if "i < 16" for i
  proof -
    have b: "79/100 \<le> tissues s ! i" "tissues s ! i \<le> 13/10"
      using assms(1) that by (simp_all add: tissues_in_def)
    have "comp_ceiling ?gf s i \<le> tissues s ! i"
      using b that by (intro comp_ceiling_le_tissue) simp_all
    then show ?thesis using b by simp
  qed
  then have hi: "?M \<le> 13/10" by (intro Max_image_16_le) blast
  have "getCeiling surface_planner s (6/5) = Inr ((?M - 1) * 10)"
    using nz lo by (simp add: getCeiling_closed gf surface_planner_fields)
  then show ?thesis using lo hi by simp
qed

text \<open>
  Claim C6. The next stop is the ceiling rounded up to a multiple of 3 m: it is
  \<open>\<lceil>ceiling / 3\<rceil> * 3\<close>, the least multiple of 3 that is not below the ceiling, so a
  ceiling strictly between 0 and 3 gives 3, one strictly between 3 and 6 gives 6, and one
  in \<open>(3 (k - 1), 3 k]\<close> gives \<open>3 k\<close>. Every run that returns has made its ascent in passes
  \<open>k = 0, 1, \<dots>\<close> of the third loop: with \<open>ss ! k\<close> the state and \<open>(depth p # ds) ! k\<close> the
  depth before pass \<open>k\<close>, the pass computes the ceiling of that state at that depth, moves
  to the depth \<open>ds ! k\<close> that lines 123 to 128 give for the next stop, which is never above
  (shallower than) the next stop, and calls \<open>update\<close> at that depth, so the depths \<open>ds\<close> are
  the depths the ascent logs.
\<close>

theorem nextStop_rounds_up_to_three:
  "nextStop c = of_int \<lceil>c / 3\<rceil> * 3 \<and> c \<le> nextStop c \<and> nextStop c < c + 3 \<and>
   (0 < c \<and> c < 3 \<longrightarrow> nextStop c = 3) \<and>
   (3 < c \<and> c < 6 \<longrightarrow> nextStop c = 6) \<and>
   (\<forall>k::int. 3 * (of_int k - 1) < c \<and> c \<le> 3 * of_int k \<longrightarrow> nextStop c = 3 * of_int k) \<and>
   (run_state n p = Some (Inr s') \<longrightarrow>
      (\<exists>c1 t1 s1 t2 s2 ds ss.
         descent p 0 0 init_state = Inr (c1, t1, s1) \<and>
         bottom p (t1 + bottomTime p) t1 s1 = Inr (t2, s2) \<and>
         ascent n p (depth p) t2 s2 = Some (Inr s') \<and>
         length ss = Suc (length ds) \<and> ss ! 0 = s2 \<and> last ss = s' \<and>
         log_depth (divelog s') = log_depth (divelog s2) @ ds \<and>
         (0 < depth p \<longrightarrow> ds \<noteq> []) \<and>
         (\<forall>k<length ds. 0 < (depth p # ds) ! k \<and>
            (\<exists>ceil. getCeiling p (ss ! k) ((depth p # ds) ! k) = Inr ceil \<and>
               ds ! k = ascent_move p ((depth p # ds) ! k) (nextStop ceil) \<and>
               nextStop ceil \<le> ds ! k) \<and>
            update p (ds ! k) (t2 + real k * 0.1) True (ss ! k) = Inr (ss ! Suc k))))"
proof -
  have 1: "nextStop c = of_int \<lceil>c / 3\<rceil> * 3" by (simp add: nextStop_def)
  have 2: "0 < c \<and> c < 3 \<longrightarrow> nextStop c = 3"
    using nextStop_multiple[of 1 c] by simp
  have 3: "3 < c \<and> c < 6 \<longrightarrow> nextStop c = 6"
    using nextStop_multiple[of 2 c] by simp
  have 4: "\<forall>k::int. 3 * (of_int k - 1) < c \<and> c \<le> 3 * of_int k \<longrightarrow> nextStop c = 3 * of_int k"
    using nextStop_multiple by blast
  have 5: "\<exists>c1 t1 s1 t2 s2 ds ss.
         descent p 0 0 init_state = Inr (c1, t1, s1) \<and>
         bottom p (t1 + bottomTime p) t1 s1 = Inr (t2, s2) \<and>
         ascent n p (depth p) t2 s2 = Some (Inr s') \<and>
         length ss = Suc (length ds) \<and> ss ! 0 = s2 \<and> last ss = s' \<and>
         log_depth (divelog s') = log_depth (divelog s2) @ ds \<and>
         (0 < depth p \<longrightarrow> ds \<noteq> []) \<and>
         (\<forall>k<length ds. 0 < (depth p # ds) ! k \<and>
            (\<exists>ceil. getCeiling p (ss ! k) ((depth p # ds) ! k) = Inr ceil \<and>
               ds ! k = ascent_move p ((depth p # ds) ! k) (nextStop ceil) \<and>
               nextStop ceil \<le> ds ! k) \<and>
            update p (ds ! k) (t2 + real k * 0.1) True (ss ! k) = Inr (ss ! Suc k))"
    if r: "run_state n p = Some (Inr s')"
  proof -
    from r obtain c1 t1 s1 t2 s2 where
      d: "descent p 0 0 init_state = Inr (c1, t1, s1)" and
      b: "bottom p (t1 + bottomTime p) t1 s1 = Inr (t2, s2)" and
      a: "ascent n p (depth p) t2 s2 = Some (Inr s')"
      by (rule run_state_cases)
    have w: "wf_state s2" using descent_bottom_wf[OF d b] by simp
    from ascent_passes[OF w a] show ?thesis using d b a unfolding dt_def by blast
  qed
  show ?thesis using 1 2 3 4 5 nextStop_bounds by blast
qed

text \<open>
  Three ceilings, and the run of \<open>surface_planner\<close>: its first pass finds a ceiling between
  0 and 3 m, the next stop is 3 m, and the pass logs the depth 3.
\<close>

theorem nextStop_rounds_up_to_three_witness:
  "0 < (3/2::real) \<and> (3/2::real) < 3 \<and> nextStop (3/2) = 3 \<and>
   3 < (9/2::real) \<and> (9/2::real) < 6 \<and> nextStop (9/2) = 6 \<and>
   3 * (of_int 4 - 1) < (10::real) \<and> (10::real) \<le> 3 * of_int 4 \<and> nextStop 10 = 3 * of_int 4 \<and>
   (\<exists>s' c1 t1 s1 t2 s2 ds ss ceil.
      run_state 3 surface_planner = Some (Inr s') \<and>
      descent surface_planner 0 0 init_state = Inr (c1, t1, s1) \<and>
      bottom surface_planner (t1 + bottomTime surface_planner) t1 s1 = Inr (t2, s2) \<and>
      ascent 3 surface_planner (depth surface_planner) t2 s2 = Some (Inr s') \<and>
      length ss = Suc (length ds) \<and> ss ! 0 = s2 \<and> last ss = s' \<and>
      log_depth (divelog s') = log_depth (divelog s2) @ ds \<and>
      0 < depth surface_planner \<and> ds \<noteq> [] \<and> 0 < length ds \<and>
      getCeiling surface_planner (ss ! 0) (depth surface_planner) = Inr ceil \<and>
      0 < ceil \<and> ceil \<le> 3 \<and> nextStop ceil = 3 \<and> ds ! 0 = 3 \<and> nextStop ceil \<le> ds ! 0 \<and>
      update surface_planner (ds ! 0) (t2 + real 0 * 0.1) True (ss ! 0) = Inr (ss ! Suc 0))"
proof -
  have pa: "0 < (3/2::real) \<and> (3/2::real) < 3" by simp
  have a: "nextStop (3/2) = 3"
    using nextStop_rounds_up_to_three[where c = "3/2"] pa by blast
  have pb: "3 < (9/2::real) \<and> (9/2::real) < 6" by simp
  have b: "nextStop (9/2) = 6"
    using nextStop_rounds_up_to_three[where c = "9/2"] pb by blast
  have pc: "3 * (of_int 4 - 1) < (10::real) \<and> (10::real) \<le> 3 * of_int 4" by simp
  have c: "nextStop 10 = 3 * of_int 4"
    using nextStop_rounds_up_to_three[where c = 10] pc by blast
  from surface_descent obtain c1 t1 s1 where
    d1: "descent surface_planner 0 0 init_state = Inr (c1, t1, s1)" and 1: "wf_state s1"
    "tissues_in (79/100) (13/10) s1" by blast
  from surface_bottom[OF 1] obtain t2 s2 where
    b1: "bottom surface_planner (t1 + bottomTime surface_planner) t1 s1 = Inr (t2, s2)" and
    2: "wf_state s2" "tissues_in (79/100) (13/10) s2" "103/100 \<le> tissues s2 ! 0" by blast
  from surface_ascent[OF 2] obtain s' where
    a1: "ascent 3 surface_planner (6/5) t2 s2 = Some (Inr s')" by blast
  have rs: "run_state 3 surface_planner = Some (Inr s')"
    using d1 b1 a1 by (simp add: run_state_def Let_def surface_planner_fields)
  from surface_ceiling_1[OF 2(2,3)] obtain ceil where
    ce: "getCeiling surface_planner s2 (6/5) = Inr ceil" "0 < ceil" "ceil \<le> 3" by blast
  have dp: "depth surface_planner = 6/5" by (simp add: surface_planner_fields)
  have pd: "3 * (of_int 1 - 1) < ceil \<and> ceil \<le> 3 * of_int 1" using ce by simp
  have n3: "nextStop ceil = 3"
    using nextStop_rounds_up_to_three[where c = ceil] pd by fastforce
  from nextStop_rounds_up_to_three[of ceil 3 surface_planner s'] rs obtain c1' t1' s1' t2' s2' ds ss where
    r: "descent surface_planner 0 0 init_state = Inr (c1', t1', s1')"
      "bottom surface_planner (t1' + bottomTime surface_planner) t1' s1' = Inr (t2', s2')"
      "ascent 3 surface_planner (depth surface_planner) t2' s2' = Some (Inr s')"
      "length ss = Suc (length ds)" "ss ! 0 = s2'" "last ss = s'"
      "log_depth (divelog s') = log_depth (divelog s2') @ ds"
      "0 < depth surface_planner \<longrightarrow> ds \<noteq> []" and
    al: "\<forall>k<length ds. 0 < (depth surface_planner # ds) ! k \<and>
            (\<exists>ceil. getCeiling surface_planner (ss ! k) ((depth surface_planner # ds) ! k) = Inr ceil \<and>
               ds ! k = ascent_move surface_planner ((depth surface_planner # ds) ! k) (nextStop ceil) \<and>
               nextStop ceil \<le> ds ! k) \<and>
            update surface_planner (ds ! k) (t2' + real k * 0.1) True (ss ! k) = Inr (ss ! Suc k)"
    by blast
  have e1: "c1' = c1" "t1' = t1" "s1' = s1" using r(1) d1 by simp_all
  have e2: "t2' = t2" "s2' = s2" using r(2) b1 e1 by simp_all
  have ne: "ds \<noteq> []" "0 < length ds" using r(8) dp by simp_all
  have k0: "(\<exists>ceil. getCeiling surface_planner (ss ! 0) (depth surface_planner) = Inr ceil \<and>
               ds ! 0 = ascent_move surface_planner (depth surface_planner) (nextStop ceil) \<and>
               nextStop ceil \<le> ds ! 0) \<and>
            update surface_planner (ds ! 0) (t2' + real 0 * 0.1) True (ss ! 0) = Inr (ss ! Suc 0)"
    using al ne(2) by fastforce
  have g0: "getCeiling surface_planner (ss ! 0) (depth surface_planner) = Inr ceil"
    by (simp only: dp r(5) e2 ce(1))
  have d0: "ds ! 0 = 3"
    using k0 g0 n3 by (auto simp: ascent_move_def surface_planner_fields)
  have pos: "0 < depth surface_planner" using dp by simp
  have le: "nextStop ceil \<le> ds ! 0" using n3 d0 by simp
  have up: "update surface_planner (ds ! 0) (t2' + real 0 * 0.1) True (ss ! 0) = Inr (ss ! Suc 0)"
    using k0 by blast
  have ex: "\<exists>s' c1 t1 s1 t2 s2 ds ss ceil.
      run_state 3 surface_planner = Some (Inr s') \<and>
      descent surface_planner 0 0 init_state = Inr (c1, t1, s1) \<and>
      bottom surface_planner (t1 + bottomTime surface_planner) t1 s1 = Inr (t2, s2) \<and>
      ascent 3 surface_planner (depth surface_planner) t2 s2 = Some (Inr s') \<and>
      length ss = Suc (length ds) \<and> ss ! 0 = s2 \<and> last ss = s' \<and>
      log_depth (divelog s') = log_depth (divelog s2) @ ds \<and>
      0 < depth surface_planner \<and> ds \<noteq> [] \<and> 0 < length ds \<and>
      getCeiling surface_planner (ss ! 0) (depth surface_planner) = Inr ceil \<and>
      0 < ceil \<and> ceil \<le> 3 \<and> nextStop ceil = 3 \<and> ds ! 0 = 3 \<and> nextStop ceil \<le> ds ! 0 \<and>
      update surface_planner (ds ! 0) (t2 + real 0 * 0.1) True (ss ! 0) = Inr (ss ! Suc 0)"
    by (rule exI[of _ s'], rule exI[of _ c1'], rule exI[of _ t1'], rule exI[of _ s1'],
        rule exI[of _ t2'], rule exI[of _ s2'], rule exI[of _ ds], rule exI[of _ ss],
        rule exI[of _ ceil])
       (intro conjI rs r(1-7) pos ne g0 ce(2,3) n3 d0 le up)
  show ?thesis
    using a b c pa pb pc ex by blast
qed

subsection \<open>Consumption and bottom time\<close>

lemma comp_ceiling_mono:
  assumes "i < 16" and "0 \<le> gf'" and "gf' \<le> gf"
    and "0 \<le> tissues s ! i" and "tissues s ! i \<le> tissues s' ! i"
  shows "comp_ceiling gf s i \<le> comp_ceiling gf' s' i"
proof -
  define k where "k = 1 / coef_b ! i - 1"
  define a where "a = coef_a ! i"
  define x where "x = tissues s ! i"
  define y where "y = tissues s' ! i"
  have b: "0 < coef_b ! i" "coef_b ! i < 1" using coef_b_range[OF assms(1)] by simp_all
  have k: "0 \<le> k" using b by (simp add: k_def)
  have a: "0 \<le> a" using coef_a_pos[OF assms(1)] by (simp add: a_def)
  have gf: "0 \<le> gf" using assms(2,3) by simp
  have d: "den gf i = 1 + gf * k" "den gf' i = 1 + gf' * k"
    by (simp_all add: den_def k_def algebra_simps)
  have dp: "0 < 1 + gf * k" "0 < 1 + gf' * k"
    using k gf assms(2) by (simp_all add: add_pos_nonneg)
  have xy: "0 \<le> x" "x \<le> y" using assms(4,5) by (simp_all add: x_def y_def)
  have 1: "0 \<le> (y - x) * gf" using xy gf by simp
  have 2: "0 \<le> x * (gf - gf')" using xy assms(3) by simp
  have 3: "0 \<le> a * (gf - gf')" using a assms(3) by simp
  have "0 \<le> (y - x) * gf + x * (gf - gf')" using 1 2 by simp
  then have "0 \<le> k * ((y - x) * gf + x * (gf - gf'))" using k by simp
  then have "0 \<le> (y - x) + k * ((y - x) * gf + x * (gf - gf')) + a * (gf - gf')"
    using xy 3 by simp
  also have "\<dots> = (y - a * gf') * (1 + gf * k) - (x - a * gf) * (1 + gf' * k)"
    by (simp add: algebra_simps)
  finally have "(x - a * gf) * (1 + gf' * k) \<le> (y - a * gf') * (1 + gf * k)" by simp
  then have "(x - a * gf) / (1 + gf * k) \<le> (y - a * gf') / (1 + gf' * k)"
    using dp by (simp add: field_simps)
  then show ?thesis
    by (simp add: comp_ceiling_def d x_def y_def a_def)
qed

lemma getCeiling_Inr:
  assumes "depth p \<noteq> 0" and "0 \<le> currentGf p d"
  shows "getCeiling p s d = Inr (max 0 ((Max (comp_ceiling (currentGf p d) s ` {..<16}) - 1) * 10))"
proof -
  have "\<not> (\<exists>j<16. den (currentGf p d) j = 0)"
    using den_pos[OF assms(2)] by fastforce
  then show ?thesis using assms(1) by (simp add: getCeiling_closed)
qed

lemma getCeiling_mono:
  assumes "depth p \<noteq> 0" and "0 \<le> currentGf p c'" and "currentGf p c' \<le> currentGf p c"
    and "\<forall>i<16. 0 \<le> tissues s ! i \<and> tissues s ! i \<le> tissues s' ! i"
    and "getCeiling p s c = Inr x" and "getCeiling p s' c' = Inr x'"
  shows "x \<le> x'"
proof -
  let ?f = "comp_ceiling (currentGf p c) s"
  let ?g = "comp_ceiling (currentGf p c') s'"
  have gf: "0 \<le> currentGf p c" using assms(2,3) by simp
  have "?f i \<le> Max (?g ` {..<16})" if "i < 16" for i
  proof -
    have "?f i \<le> ?g i"
      using assms(2,3,4) that by (intro comp_ceiling_mono) simp_all
    also have "\<dots> \<le> Max (?g ` {..<16})" using that by (rule Max_image_16_ge)
    finally show ?thesis .
  qed
  then have "Max (?f ` {..<16}) \<le> Max (?g ` {..<16})"
    by (intro Max_image_16_le) blast
  then show ?thesis
    using assms(5,6) by (simp add: getCeiling_Inr[OF assms(1) gf] getCeiling_Inr[OF assms(1,2)])
qed

lemma getCeiling_le_bound:
  assumes "depth p \<noteq> 0" and "0 \<le> currentGf p c"
    and "\<forall>i<16. 0 \<le> tissues s ! i \<and> tissues s ! i \<le> B"
    and "getCeiling p s c = Inr x"
  shows "x \<le> max 0 ((B - 1) * 10)"
proof -
  have "comp_ceiling (currentGf p c) s i \<le> B" if "i < 16" for i
  proof -
    have "comp_ceiling (currentGf p c) s i \<le> tissues s ! i"
      using assms(2,3) that by (intro comp_ceiling_le_tissue) simp_all
    then show ?thesis using assms(3) that by fastforce
  qed
  then have "Max (comp_ceiling (currentGf p c) s ` {..<16}) \<le> B"
    by (intro Max_image_16_le) blast
  then show ?thesis
    using assms(4) by (simp add: getCeiling_Inr[OF assms(1,2)])
qed

lemma nextStop_mono: "x \<le> y \<Longrightarrow> nextStop x \<le> nextStop y"
proof -
  assume "x \<le> y"
  then have "\<lceil>x / 3\<rceil> \<le> \<lceil>y / 3\<rceil>" by (intro ceiling_mono) simp
  then have "(of_int \<lceil>x / 3\<rceil> :: real) \<le> of_int \<lceil>y / 3\<rceil>" by simp
  then show ?thesis by (simp add: nextStop_def)
qed

lemma nextStop_le_multiple: "x \<le> of_int m * 3 \<Longrightarrow> nextStop x \<le> of_int m * 3"
proof -
  assume "x \<le> of_int m * 3"
  then have "x / 3 \<le> of_int m" by simp
  then have "\<lceil>x / 3\<rceil> \<le> m" by (simp add: ceiling_le_iff)
  then have "(of_int \<lceil>x / 3\<rceil> :: real) \<le> of_int m" by simp
  then show ?thesis by (simp add: nextStop_def)
qed

lemma nextStop_0: "nextStop 0 = 0"
  by (simp add: nextStop_def)

lemma ascent_move_mono:
  assumes "0 \<le> vUp p" and "c \<le> c'" and "st \<le> st'"
  shows "ascent_move p c st \<le> ascent_move p c' st'"
  using assms
  by (simp add: ascent_move_def Let_def dt_def)

lemma ascent_move_le:
  assumes "0 \<le> vUp p" and "c \<le> D" and "st \<le> D"
  shows "ascent_move p c st \<le> D"
proof -
  have "0 \<le> vUp p * dt" using assms(1) by (simp add: dt_def)
  then show ?thesis using assms(2,3) by (simp add: ascent_move_def Let_def)
qed

lemma activeN2_ordered:
  assumes "fO2Deco p \<noteq> 0" and "fN2Deco p \<le> fN2Bottom p" and "c \<le> c'"
  shows "\<exists>f f'. activeN2 p c True = Inr f \<and> activeN2 p c' True = Inr f' \<and>
           fN2Deco p \<le> f \<and> f \<le> f' \<and> f' \<le> fN2Bottom p"
  using assms by (simp add: activeN2_def getSwitchDepth_def)

lemma decay_mono:
  assumes "i < 16" and "x \<le> x'" and "pAlv \<le> pAlv'"
  shows "decay pAlv i x \<le> decay pAlv' i x'"
proof -
  have e: "0 < efac i" "efac i < 1" using efac_range[OF assms(1)] by simp_all
  have "efac i * x \<le> efac i * x'" using e assms(2) by simp
  moreover have "(1 - efac i) * pAlv \<le> (1 - efac i) * pAlv'"
    using e assms(3) by (intro mult_left_mono) simp_all
  ultimately show ?thesis by (simp add: decay_convex)
qed

lemma currentGf_eq: "currentGf p c = gfHigh p - (gfHigh p - gfLow p) * (c / depth p)"
  by (simp add: currentGf_def Let_def field_simps)

lemma currentGf_mono:
  assumes "0 < depth p" and "gfLow p \<le> gfHigh p" and "c \<le> c'"
  shows "currentGf p c' \<le> currentGf p c"
proof -
  have "c / depth p \<le> c' / depth p" using assms(1,3) by (simp add: divide_right_mono)
  then have "(gfHigh p - gfLow p) * (c / depth p) \<le> (gfHigh p - gfLow p) * (c' / depth p)"
    using assms(2) by (intro mult_left_mono) simp_all
  then show ?thesis by (simp add: currentGf_eq)
qed

lemma currentGf_flat: "gfLow p = gfHigh p \<Longrightarrow> currentGf p c = gfHigh p"
  by (simp add: currentGf_eq)


lemma ascent_nonpos: "\<not> c > 0 \<Longrightarrow> ascent n p c t s = Some (Inr s)"
  by (cases n) (simp_all add: ascent_0 ascent_unfold)

lemma ascent_Suc:
  assumes "c > 0" and "ascent_step p c t s = Inr (c1, s1)" and "getCeiling p s1 0 = Inr c0"
  shows "ascent (Suc m) p c t s = ascent m p c1 (t + dt) s1"
proof (cases "c1 = 0")
  case True
  then have "ascent m p c1 (t + dt) s1 = Some (Inr s1)" by (simp add: ascent_nonpos)
  then show ?thesis using assms True by (simp add: ascent_unfold)
next
  case False
  then show ?thesis using assms by (simp add: ascent_unfold)
qed

lemma getCeiling_surface_Inr:
  assumes "ordered_gases p"
  shows "\<exists>c0. getCeiling p s 0 = Inr c0"
proof -
  have "depth p \<noteq> 0" "0 \<le> currentGf p 0"
    using assms by (simp_all add: ordered_gases_def currentGf_eq)
  then show ?thesis using getCeiling_Inr by blast
qed

lemma ascent_cons_le:
  assumes "0 \<le> sac p" and "wf_state s" and "ascent n p c t s = Some (Inr f)"
  shows "log_cons (divelog s) \<le> log_cons (divelog f)"
proof -
  define I where "I = (\<lambda>(c::real) (t::real) (s0::state). log_cons (divelog s) \<le> log_cons (divelog s0))"
  have "\<exists>c' t'. I c' t' f \<and> c' \<le> 0 \<and> wf_state f"
  proof (rule ascent_rule[OF assms(3,2)])
    show "I c t s" by (simp add: I_def)
    fix c t s0 c' s'
    assume w: "wf_state s0" and i: "I c t s0" and st: "ascent_step p c t s0 = Inr (c', s')"
    have c': "0 \<le> c'" using ascent_step_depth[OF w st] by simp
    from st obtain fN2 where "s' = step_state p fN2 c' t s0"
      by (auto simp: ascent_step_closed[OF w] split: sum.splits)
    then have "log_cons (divelog s') = log_cons (divelog s0) + sac p * (c' / 10 + 1) * dt"
      by (simp add: cons_step_state)
    moreover have "0 \<le> sac p * (c' / 10 + 1) * dt"
      using assms(1) c' by (intro mult_nonneg_nonneg) (simp_all add: dt_def)
    ultimately show "I c' (t + dt) s'" using i by (simp add: I_def)
  qed
  then show ?thesis by (simp add: I_def)
qed

lemma ascent_step_dominated:
  assumes og: "ordered_gases p" and dom: "dominated p g c s c' s'" and pos: "0 < c"
  shows "\<exists>c1 s1 c1' s1'. ascent_step p c t s = Inr (c1, s1) \<and>
           ascent_step p c' t' s' = Inr (c1', s1') \<and> dominated p g c1 s1 c1' s1'"
proof -
  define D where "D = depth p"
  define B where "B = tissue_bound p"
  define PB where "PB = (D / 10 + 1 - 0.0627) * fN2Bottom p"
  have D: "0 < D" and sac: "0 \<le> sac p" and vup: "0 \<le> vUp p" and gl: "0 \<le> gfLow p"
    and glh: "gfLow p \<le> gfHigh p" and fd: "0 \<le> fN2Deco p" and fdb: "fN2Deco p \<le> fN2Bottom p"
    and o2: "fO2Deco p \<noteq> 0"
    using og by (simp_all add: ordered_gases_def D_def)
  have w: "wf_state s" "wf_state s'" and cc: "c \<le> c'"
    and nn: "\<forall>i<16. 0 \<le> tissues s ! i" "\<forall>i<16. 0 \<le> tissues s' ! i"
    and mode: "gfLow p = gfHigh p \<or>
       (stops_above_bottom p \<and> c' \<le> D \<and> (\<forall>i<16. tissues s' ! i \<le> B))"
    and ord: "(\<forall>i<16. tissues s ! i \<le> tissues s' ! i) \<or>
       (PB \<le> 1 \<and> c \<le> D \<and> (\<forall>i<16. tissues s ! i \<le> 1))"
    and cons: "log_cons (divelog s) + g \<le> log_cons (divelog s')"
    using dom by (simp_all add: dominated_def D_def B_def PB_def)
  have pos': "0 < c'" using pos cc by simp
  have dz: "depth p \<noteq> 0" using D by (simp add: D_def)
  have PBB: "PB \<le> B" by (simp add: PB_def B_def tissue_bound_def D_def)
  have gf: "0 \<le> currentGf p c'" "currentGf p c' \<le> currentGf p c"
  proof -
    show "currentGf p c' \<le> currentGf p c"
      using D glh cc by (intro currentGf_mono) (simp_all add: D_def)
    show "0 \<le> currentGf p c'"
    proof (cases "gfLow p = gfHigh p")
      case True
      then show ?thesis using gl by (simp add: currentGf_flat)
    next
      case False
      then have "c' \<le> depth p" using mode by (simp add: D_def)
      then show ?thesis using currentGf_between[OF pos' _ glh] gl by simp
    qed
  qed
  have gf0: "0 \<le> currentGf p c" using gf by simp
  obtain x where x: "getCeiling p s c = Inr x" using getCeiling_Inr[OF dz gf0] by blast
  obtain x' where x': "getCeiling p s' c' = Inr x'" using getCeiling_Inr[OF dz gf(1)] by blast
  have x0: "0 \<le> x" "0 \<le> x'" using getCeiling_nonneg x x' by blast+
  have zero: "x = 0" if "\<forall>i<16. tissues s ! i \<le> 1"
    using getCeiling_zero[OF dz gf0 that] x by simp
  have xx: "x \<le> x'"
  proof (cases "\<forall>i<16. tissues s ! i \<le> tissues s' ! i")
    case True
    show ?thesis
      by (rule getCeiling_mono[OF dz gf _ x x']) (use True nn in blast)
  next
    case False
    then have "\<forall>i<16. tissues s ! i \<le> 1" using ord by blast
    then show ?thesis using zero x0 by simp
  qed
  define st where "st = nextStop x"
  define st' where "st' = nextStop x'"
  have stst: "st \<le> st'" unfolding st_def st'_def using xx by (rule nextStop_mono)
  have st0: "0 \<le> st" using nextStop_bounds[of x] x0 by (simp add: st_def)
  define c1 where "c1 = ascent_move p c st"
  define c1' where "c1' = ascent_move p c' st'"
  have c1c1: "c1 \<le> c1'" unfolding c1_def c1'_def using vup cc stst by (rule ascent_move_mono)
  have c10: "0 \<le> c1" using ascent_move_ge[of st p c] st0 by (simp add: c1_def)
  from activeN2_ordered[OF o2 fdb c1c1] obtain f f' where
    f: "activeN2 p c1 True = Inr f" "activeN2 p c1' True = Inr f'"
      "fN2Deco p \<le> f" "f \<le> f'" "f' \<le> fN2Bottom p"
    by blast
  have f0: "0 \<le> f" "0 \<le> f'" using f(3,4) fd by simp_all
  define s1 where "s1 = step_state p f c1 t s"
  define s1' where "s1' = step_state p f' c1' t' s'"
  have a1: "ascent_step p c t s = Inr (c1, s1)"
    by (simp add: ascent_step_closed[OF w(1)] x st_def[symmetric] c1_def[symmetric] f s1_def)
  have a1': "ascent_step p c' t' s' = Inr (c1', s1')"
    by (simp add: ascent_step_closed[OF w(2)] x' st'_def[symmetric] c1'_def[symmetric] f s1'_def)
  define q where "q = (c1 / 10 + 1 - 0.0627) * f"
  define q' where "q' = (c1' / 10 + 1 - 0.0627) * f'"
  have q0: "0 \<le> q" using c10 f0 by (simp add: q_def)
  have qq: "q \<le> q'" unfolding q_def q'_def using c1c1 c10 f(4) f0 by (intro mult_mono) simp_all
  have q0': "0 \<le> q'" using q0 qq by simp
  have t1: "tissues s1 ! i = decay q i (tissues s ! i)" if "i < 16" for i
    using that by (simp add: s1_def tissues_step_state q_def)
  have t1': "tissues s1' ! i = decay q' i (tissues s' ! i)" if "i < 16" for i
    using that by (simp add: s1'_def tissues_step_state q'_def)
  have nn1: "\<forall>i<16. 0 \<le> tissues s1 ! i"
    using nn(1) q0 by (simp add: t1 decay_ge)
  have nn1': "\<forall>i<16. 0 \<le> tissues s1' ! i"
    using nn(2) q0' by (simp add: t1' decay_ge)
  have qPB: "(d / 10 + 1 - 0.0627) * h \<le> PB" if "0 \<le> d" "d \<le> D" "0 \<le> h" "h \<le> fN2Bottom p" for d h
    unfolding PB_def using that by (intro mult_mono) simp_all
  have mode1: "gfLow p = gfHigh p \<or>
       (stops_above_bottom p \<and> c1' \<le> D \<and> (\<forall>i<16. tissues s1' ! i \<le> B))"
  proof (cases "gfLow p = gfHigh p")
    case True
    then show ?thesis by simp
  next
    case False
    then have m: "stops_above_bottom p" "c' \<le> D" "\<forall>i<16. tissues s' ! i \<le> B"
      using mode by simp_all
    have fl: "of_int \<lfloor>D / 3\<rfloor> * 3 \<le> D"
    proof -
      have "of_int \<lfloor>D / 3\<rfloor> \<le> D / 3" by (rule of_int_floor_le)
      then show ?thesis by simp
    qed
    have fl0: "0 \<le> of_int \<lfloor>D / 3\<rfloor> * (3::real)" using D by simp
    have "x' \<le> max 0 ((B - 1) * 10)"
      by (rule getCeiling_le_bound[OF dz gf(1) _ x']) (use nn(2) m(3) in blast)
    also have "\<dots> \<le> of_int \<lfloor>D / 3\<rfloor> * 3"
      using m(1) fl0 by (simp add: stops_above_bottom_def B_def D_def)
    finally have "st' \<le> of_int \<lfloor>D / 3\<rfloor> * 3"
      unfolding st'_def by (rule nextStop_le_multiple)
    then have "st' \<le> D" using fl by simp
    then have c1D: "c1' \<le> D" unfolding c1'_def using vup m(2) by (intro ascent_move_le) simp_all
    have "q' \<le> PB" unfolding q'_def using c10 c1c1 c1D f0 f(5) by (intro qPB) simp_all
    then have "q' \<le> B" using PBB by simp
    then have "\<forall>i<16. tissues s1' ! i \<le> B" using m(3) by (simp add: t1' decay_le)
    then show ?thesis using m(1) c1D by simp
  qed
  have ord1: "(\<forall>i<16. tissues s1 ! i \<le> tissues s1' ! i) \<or>
       (PB \<le> 1 \<and> c1 \<le> D \<and> (\<forall>i<16. tissues s1 ! i \<le> 1))"
  proof (cases "\<forall>i<16. tissues s ! i \<le> tissues s' ! i")
    case True
    then have "\<forall>i<16. tissues s1 ! i \<le> tissues s1' ! i"
      using qq by (simp add: t1 t1' decay_mono)
    then show ?thesis by simp
  next
    case False
    then have o: "PB \<le> 1" "c \<le> D" "\<forall>i<16. tissues s ! i \<le> 1" using ord by blast+
    have "st = 0" using zero[OF o(3)] by (simp add: st_def nextStop_0)
    then have c1D: "c1 \<le> D" unfolding c1_def using vup o(2) D by (intro ascent_move_le) simp_all
    have "q \<le> PB" unfolding q_def using c10 c1D f0 f(4,5) by (intro qPB) simp_all
    then have "q \<le> 1" using o(1) by simp
    then have "\<forall>i<16. tissues s1 ! i \<le> 1" using o(3) by (simp add: t1 decay_le)
    then show ?thesis using o(1) c1D by simp
  qed
  have "sac p * (c1 / 10 + 1) \<le> sac p * (c1' / 10 + 1)"
    using sac c1c1 by (intro mult_left_mono) simp_all
  then have "sac p * (c1 / 10 + 1) * dt \<le> sac p * (c1' / 10 + 1) * dt"
    by (simp add: dt_def)
  then have cons1: "log_cons (divelog s1) + g \<le> log_cons (divelog s1')"
    using cons by (simp add: s1_def s1'_def cons_step_state)
  have "dominated p g c1 s1 c1' s1'"
    unfolding dominated_def
    using c10 c1c1 nn1 nn1' mode1 ord1 cons1
    by (simp add: s1_def s1'_def wf_step_state D_def B_def PB_def)
  then show ?thesis using a1 a1' by blast
qed

lemma ascent_dominated:
  assumes og: "ordered_gases p"
  shows "dominated p g c s c' s' \<Longrightarrow> ascent n p c' t' s' = Some (Inr f') \<Longrightarrow>
     \<exists>f. ascent n p c t s = Some (Inr f) \<and> log_cons (divelog f) + g \<le> log_cons (divelog f')"
proof (induction n arbitrary: c s c' s' t t')
  case 0
  then have "\<not> c' > 0" "f' = s'" by (auto simp: ascent_0 split: if_splits)
  moreover have "c \<le> c'" "log_cons (divelog s) + g \<le> log_cons (divelog s')"
    using "0.prems"(1) by (simp_all add: dominated_def)
  ultimately show ?case by (simp add: ascent_0)
next
  case (Suc m)
  have sac: "0 \<le> sac p" using og by (simp add: ordered_gases_def)
  have d: "wf_state s'" "c \<le> c'" "log_cons (divelog s) + g \<le> log_cons (divelog s')"
    using Suc.prems(1) by (simp_all add: dominated_def)
  show ?case
  proof (cases "c > 0")
    case False
    have "log_cons (divelog s') \<le> log_cons (divelog f')"
      by (rule ascent_cons_le[OF sac d(1) Suc.prems(2)])
    then show ?thesis using False d(3) by (simp add: ascent_nonpos)
  next
    case True
    then have pos': "c' > 0" using d(2) by simp
    from ascent_step_dominated[OF og Suc.prems(1) True, of t t'] obtain c1 s1 c1' s1' where
      a: "ascent_step p c t s = Inr (c1, s1)" and a': "ascent_step p c' t' s' = Inr (c1', s1')"
      and dom: "dominated p g c1 s1 c1' s1'" by blast
    obtain c0 c0' where c0: "getCeiling p s1 0 = Inr c0" "getCeiling p s1' 0 = Inr c0'"
      using getCeiling_surface_Inr[OF og] by blast
    have "ascent m p c1' (t' + dt) s1' = Some (Inr f')"
      using Suc.prems(2) by (simp add: ascent_Suc[OF pos' a' c0(2)])
    from Suc.IH[OF dom this] obtain f where
      "ascent m p c1 (t + dt) s1 = Some (Inr f)"
      "log_cons (divelog f) + g \<le> log_cons (divelog f')" by blast
    then show ?thesis by (simp add: ascent_Suc[OF True a c0(1)])
  qed
qed


lemma tissue_bound_ge: "79/100 \<le> tissue_bound p" "(depth p / 10 + 1 - 0.0627) * fN2Bottom p \<le> tissue_bound p"
  by (simp_all add: tissue_bound_def)

lemma alveolar_le_bound:
  assumes "0 \<le> d" and "d \<le> depth p" and "0 \<le> h" and "h \<le> fN2Bottom p"
  shows "0 \<le> (d / 10 + 1 - 0.0627) * h \<and> (d / 10 + 1 - 0.0627) * h \<le> tissue_bound p"
proof -
  have "(d / 10 + 1 - 0.0627) * h \<le> (depth p / 10 + 1 - 0.0627) * fN2Bottom p"
    using assms by (intro mult_mono) simp_all
  moreover have "0 \<le> (d / 10 + 1 - 0.0627) * h" using assms(1,3) by simp
  ultimately show ?thesis using tissue_bound_ge(2)[of p] by simp
qed

lemma tissues_in_init: "tissues_in 0 (tissue_bound p) init_state"
proof -
  have "\<forall>x\<in>set (tissues init_state). x = 79/100" by (simp add: init_state_def)
  moreover have "length (tissues init_state) = 16" by (simp add: init_state_def)
  ultimately have e: "\<forall>i<16. tissues init_state ! i = 79/100" by (metis nth_mem)
  show ?thesis
    unfolding tissues_in_def
  proof (intro allI impI)
    fix i :: nat assume "i < 16"
    then have "tissues init_state ! i = 79/100" using e by blast
    then show "0 \<le> tissues init_state ! i \<and> tissues init_state ! i \<le> tissue_bound p"
      using tissue_bound_ge(1)[of p] by linarith
  qed
qed

lemma descent_tissues_in:
  assumes "ordered_gases p" and "descent p 0 0 init_state = Inr (c1, t1, s1)"
  shows "wf_state s1 \<and> tissues_in 0 (tissue_bound p) s1"
proof -
  define I where "I = (\<lambda>(c::real) (t::real) (s::state). 0 \<le> c \<and> tissues_in 0 (tissue_bound p) s)"
  have fb: "0 \<le> fN2Bottom p" using assms(1) by (simp add: ordered_gases_def)
  have "\<exists>c' t' s'. descent p 0 0 init_state = Inr (c', t', s') \<and> wf_state s' \<and> I c' t' s' \<and>
      \<not> c' < depth p"
  proof (rule descent_rule[OF wf_init_state])
    show "I 0 0 init_state" by (simp add: I_def tissues_in_init)
    fix c t s
    assume i: "I c t s" and c: "c < depth p"
    have "0 \<le> (c / 10 + 1 - 0.0627) * fN2Bottom p \<and>
        (c / 10 + 1 - 0.0627) * fN2Bottom p \<le> tissue_bound p"
      using i c fb by (intro alveolar_le_bound) (simp_all add: I_def)
    then have "tissues_in 0 (tissue_bound p) (step_state p (fN2Bottom p) c t s)"
      using i by (intro tissues_in_step) (simp_all add: I_def)
    then show "I (c + 15 * dt) (t + dt) (step_state p (fN2Bottom p) c t s)"
      using i by (simp add: I_def dt_def)
  qed
  then show ?thesis using assms(2) by (auto simp: I_def)
qed

text \<open>
  The bottom loop from a state within the bound: the compartments stay within it, the
  consumption does not go down, and it goes up by one sample when the loop makes a pass.
  When the bottom gas loads the compartments, no compartment goes down either.
\<close>

lemma bottom_tissues_in:
  assumes og: "ordered_gases p" and w: "wf_state s" and b: "tissues_in 0 (tissue_bound p) s"
    and r: "bottom p tEnd t s = Inr (t', s')"
  shows "wf_state s' \<and> tissues_in 0 (tissue_bound p) s' \<and> \<not> t' < tEnd \<and>
     (79/100 \<le> (depth p / 10 + 1 - 0.0627) * fN2Bottom p \<longrightarrow>
        (\<forall>i<16. tissues s ! i \<le> tissues s' ! i)) \<and>
     log_cons (divelog s) + (if t < tEnd then sac p * (depth p / 10 + 1) * dt else 0)
       \<le> log_cons (divelog s')"
proof -
  define B where "B = tissue_bound p"
  define PB where "PB = (depth p / 10 + 1 - 0.0627) * fN2Bottom p"
  define q where "q = sac p * (depth p / 10 + 1) * dt"
  define I where "I = (\<lambda>(u::real) (z::state). t \<le> u \<and> tissues_in 0 B z \<and>
      (79/100 \<le> PB \<longrightarrow> (\<forall>i<16. tissues s ! i \<le> tissues z ! i)) \<and>
      log_cons (divelog s) + (if t < u then q else 0) \<le> log_cons (divelog z))"
  have D: "0 < depth p" and sac: "0 \<le> sac p" and fb: "0 \<le> fN2Bottom p"
    using og by (simp_all add: ordered_gases_def)
  have q0: "0 \<le> q" unfolding q_def using sac D by (intro mult_nonneg_nonneg) (simp_all add: dt_def)
  have P: "0 \<le> PB" "PB \<le> B"
    using alveolar_le_bound[of "depth p" p "fN2Bottom p"] D fb by (simp_all add: PB_def B_def)
  have BP: "B = PB" if "79/100 \<le> PB"
    using that by (simp add: B_def PB_def tissue_bound_def)
  have "\<exists>u z. bottom p tEnd t s = Inr (u, z) \<and> wf_state z \<and> I u z \<and> \<not> u < tEnd"
  proof (rule bottom_rule[OF w])
    show "I t s" using b by (simp add: I_def B_def)
    fix u z
    assume i: "I u z"
    have tu: "t \<le> u" and bz: "tissues_in 0 B z"
      and oz: "79/100 \<le> PB \<longrightarrow> (\<forall>i<16. tissues s ! i \<le> tissues z ! i)"
      and cz: "log_cons (divelog s) + (if t < u then q else 0) \<le> log_cons (divelog z)"
      using i by (simp_all add: I_def)
    define z' where "z' = step_state p (fN2Bottom p) (depth p) u z"
    have tz: "tissues z' ! i = decay PB i (tissues z ! i)" if "i < 16" for i
      using that by (simp add: z'_def tissues_step_state PB_def)
    have b': "tissues_in 0 B z'"
      unfolding z'_def using bz P by (intro tissues_in_step) (simp_all add: PB_def)
    have o': "\<forall>i<16. tissues s ! i \<le> tissues z' ! i" if h: "79/100 \<le> PB"
    proof (intro allI impI)
      fix i :: nat assume i16: "i < 16"
      have "tissues z ! i \<le> PB" using bz i16 BP[OF h] by (simp add: tissues_in_def)
      then have "tissues z ! i \<le> decay PB i (tissues z ! i)"
        using i16 by (intro decay_ge) simp_all
      moreover have "tissues s ! i \<le> tissues z ! i" using oz h i16 by simp
      ultimately show "tissues s ! i \<le> tissues z' ! i" by (simp add: tz i16)
    qed
    have "log_cons (divelog s) \<le> log_cons (divelog z)" using cz q0 by (simp split: if_splits)
    then have c': "log_cons (divelog s) + q \<le> log_cons (divelog z')"
      by (simp add: z'_def cons_step_state q_def)
    have "t < u + dt" using tu by (simp add: dt_def)
    then show "I (u + dt) (step_state p (fN2Bottom p) (depth p) u z)"
      using b' o' c' tu unfolding I_def z'_def[symmetric] by (simp add: dt_def)
  qed
  then obtain u z where uz: "bottom p tEnd t s = Inr (u, z)" "wf_state z" "I u z" "\<not> u < tEnd"
    by blast
  have e: "u = t'" "z = s'" using uz(1) r by simp_all
  have lt: "t < tEnd \<Longrightarrow> t < t'" using uz(4) e by simp
  have i: "tissues_in 0 B s'" "79/100 \<le> PB \<longrightarrow> (\<forall>i<16. tissues s ! i \<le> tissues s' ! i)"
    "log_cons (divelog s) + (if t < t' then q else 0) \<le> log_cons (divelog s')"
    using uz(3) unfolding e I_def by simp_all
  have "log_cons (divelog s) + (if t < tEnd then q else 0) \<le> log_cons (divelog s')"
    using i(3) lt q0 by (auto split: if_splits)
  then show ?thesis
    using uz(2,4) i(1,2) unfolding e B_def PB_def q_def by simp
qed

lemma bottom_split:
  "tEnd \<le> tEnd' \<Longrightarrow> bottom p tEnd t s = Inr (t2, s2) \<Longrightarrow>
   bottom p tEnd' t s = bottom p tEnd' t2 s2"
proof (induction p tEnd t s rule: bottom.induct)
  case (1 p tEnd t s)
  note unf = bottom.simps[of p tEnd t s] bottom.simps[of p tEnd' t s]
  show ?case
  proof (cases "t < tEnd")
    case True
    then have lt': "t < tEnd'" using "1.prems"(1) by simp
    show ?thesis
    proof (cases "update p (depth p) t False s")
      case (Inl e)
      then show ?thesis using "1.prems"(2) True unfolding unf by simp
    next
      case (Inr z)
      then have "bottom p tEnd (t + dt) z = Inr (t2, s2)"
        using "1.prems"(2) True unfolding unf by simp
      then have "bottom p tEnd' (t + dt) z = bottom p tEnd' t2 s2"
        by (rule "1.IH"[OF True Inr "1.prems"(1)])
      then show ?thesis using Inr lt' unfolding unf by simp
    qed
  next
    case False
    then have "t2 = t \<and> s2 = s" using "1.prems"(2) unfolding unf(1) by simp
    then show ?thesis by simp
  qed
qed

lemma bottom_end_time:
  assumes "wf_state s" and "t < tEnd + dt" and "bottom p tEnd t s = Inr (t', s')"
  shows "t' < tEnd + dt"
proof -
  have "\<exists>u z. bottom p tEnd t s = Inr (u, z) \<and> wf_state z \<and> u < tEnd + dt \<and> \<not> u < tEnd"
    by (rule bottom_rule[OF assms(1)]) (use assms(2) in simp_all)
  then show ?thesis using assms(3) by auto
qed

lemma bottom_bottomTime: "bottom (p\<lparr>bottomTime := x\<rparr>) tEnd t s = bottom p tEnd t s"
  by (rule bottom_tEnd) simp

lemma bottom_time_monotone:
  assumes og: "ordered_gases p" and mode: "gfLow p = gfHigh p \<or> stops_above_bottom p"
    and le: "bottomTime p \<le> bt'"
    and r: "run n (p\<lparr>bottomTime := bt'\<rparr>) = Some (Inr L')"
  shows "\<exists>L. run n p = Some (Inr L) \<and> log_cons L \<le> log_cons L' \<and>
     (0 \<le> bottomTime p \<and> bottomTime p + dt \<le> bt' \<longrightarrow>
        log_cons L + sac p * (depth p / 10 + 1) * dt \<le> log_cons L')"
proof -
  define p' where "p' = p\<lparr>bottomTime := bt'\<rparr>"
  define PB where "PB = (depth p / 10 + 1 - 0.0627) * fN2Bottom p"
  define g where "g = (if 0 \<le> bottomTime p \<and> bottomTime p + dt \<le> bt'
      then sac p * (depth p / 10 + 1) * dt else 0)"
  have D: "0 < depth p" and sac: "0 \<le> sac p" using og by (simp_all add: ordered_gases_def)
  have g0: "0 \<le> g" unfolding g_def using sac D by (simp add: dt_def)
  from r obtain f' where rs: "run_state n p' = Some (Inr f')" and L': "L' = divelog f'"
    unfolding p'_def using run_Inr by blast
  from rs obtain c1 t1 s1 t3 s3 where
    d': "descent p' 0 0 init_state = Inr (c1, t1, s1)" and
    b': "bottom p' (t1 + bottomTime p') t1 s1 = Inr (t3, s3)" and
    a': "ascent n p' (depth p') t3 s3 = Some (Inr f')"
    by (rule run_state_cases)
  have d: "descent p 0 0 init_state = Inr (c1, t1, s1)"
    using d' by (simp add: p'_def descent_bottomTime)
  have b3: "bottom p (t1 + bt') t1 s1 = Inr (t3, s3)"
    using b' by (simp add: p'_def bottom_bottomTime)
  have a3: "ascent n p (depth p) t3 s3 = Some (Inr f')"
    using a' by (simp add: p'_def ascent_bottomTime)
  have 1: "wf_state s1" "tissues_in 0 (tissue_bound p) s1"
    using descent_tissues_in[OF og d] by simp_all
  have "\<exists>t2 s2. bottom p (t1 + bottomTime p) t1 s1 = Inr (t2, s2) \<and> wf_state s2 \<and> True \<and>
      \<not> t2 < t1 + bottomTime p"
    by (rule bottom_rule[OF 1(1)]) simp_all
  then obtain t2 s2 where b2: "bottom p (t1 + bottomTime p) t1 s1 = Inr (t2, s2)" by blast
  have 2: "wf_state s2" "tissues_in 0 (tissue_bound p) s2"
    using bottom_tissues_in[OF og 1 b2] by simp_all
  have "bottom p (t1 + bt') t1 s1 = bottom p (t1 + bt') t2 s2"
    using le by (intro bottom_split[OF _ b2]) simp
  then have b23: "bottom p (t1 + bt') t2 s2 = Inr (t3, s3)" using b3 by simp
  note 3 = bottom_tissues_in[OF og 2 b23]
  have t2: "t2 < t1 + bt'" if h: "0 \<le> bottomTime p \<and> bottomTime p + dt \<le> bt'"
  proof -
    have "t1 < t1 + bottomTime p + dt" using h by (simp add: dt_def)
    then have "t2 < t1 + bottomTime p + dt" using bottom_end_time[OF 1(1) _ b2] by simp
    then show ?thesis using h by simp
  qed
  have c23: "log_cons (divelog s2) + g \<le> log_cons (divelog s3)"
  proof (cases "0 \<le> bottomTime p \<and> bottomTime p + dt \<le> bt'")
    case True
    then show ?thesis using 3 t2[OF True] by (simp add: g_def)
  next
    case False
    have "0 \<le> sac p * (depth p / 10 + 1) * dt"
      using sac D by (intro mult_nonneg_nonneg) (simp_all add: dt_def)
    then have "log_cons (divelog s2) \<le> log_cons (divelog s3)"
      using 3 by (simp split: if_splits)
    then show ?thesis using False by (auto simp: g_def)
  qed
  have ord: "(\<forall>i<16. tissues s2 ! i \<le> tissues s3 ! i) \<or>
      (PB \<le> 1 \<and> depth p \<le> depth p \<and> (\<forall>i<16. tissues s2 ! i \<le> 1))"
  proof (cases "79/100 \<le> PB")
    case True
    then show ?thesis using 3 by (simp add: PB_def)
  next
    case False
    then have "tissue_bound p \<le> 1" by (simp add: tissue_bound_def PB_def)
    then have "\<forall>i<16. tissues s2 ! i \<le> 1" using 2(2) unfolding tissues_in_def by fastforce
    then show ?thesis using False by simp
  qed
  have dom: "dominated p g (depth p) s2 (depth p) s3"
    unfolding dominated_def using 2 3 D mode ord c23
    by (simp add: tissues_in_def PB_def)
  from ascent_dominated[OF og dom a3] obtain f where
    a2: "ascent n p (depth p) t2 s2 = Some (Inr f)" and
    cf: "log_cons (divelog f) + g \<le> log_cons (divelog f')" by blast
  have "run_state n p = Some (Inr f)"
    using d b2 a2 by (simp add: run_state_def Let_def)
  then have "run n p = Some (Inr (divelog f))" by (simp add: run_def)
  moreover have "log_cons (divelog f) \<le> log_cons L'" using cf g0 L' by simp
  moreover have "0 \<le> bottomTime p \<and> bottomTime p + dt \<le> bt' \<longrightarrow>
      log_cons (divelog f) + sac p * (depth p / 10 + 1) * dt \<le> log_cons L'"
    using cf L' by (auto simp: g_def)
  ultimately show ?thesis by blast
qed


subsection \<open>Consumption and target depth\<close>

lemma update_depth: "update (p\<lparr>depth := x\<rparr>) d t isDeco s = update p d t isDeco s"
  by (simp add: update_def activeN2_def getSwitchDepth_def)

lemma getCeiling_depth_flat:
  assumes "gfLow p = gfHigh p" and "depth p \<noteq> 0" and "x \<noteq> 0"
  shows "getCeiling (p\<lparr>depth := x\<rparr>) s c = getCeiling p s c"
proof -
  have "currentGf (p\<lparr>depth := x\<rparr>) c = currentGf p c"
    using assms(1) by (simp add: currentGf_eq)
  then show ?thesis using assms(2,3) by (simp add: getCeiling_def)
qed

lemma ascent_step_depth_flat:
  assumes "gfLow p = gfHigh p" and "depth p \<noteq> 0" and "x \<noteq> 0"
  shows "ascent_step (p\<lparr>depth := x\<rparr>) c t s = ascent_step p c t s"
  by (simp add: ascent_step_def update_depth getCeiling_depth_flat[OF assms] ascent_move_def
      Let_def split: sum.splits)

lemma ascent_depth_flat:
  assumes "gfLow p = gfHigh p" and "depth p \<noteq> 0" and "x \<noteq> 0"
  shows "ascent n (p\<lparr>depth := x\<rparr>) c t s = ascent n p c t s"
proof (induction n arbitrary: c t s)
  case 0
  then show ?case by (simp add: ascent_0)
next
  case (Suc m)
  then show ?case
    by (simp add: ascent_unfold ascent_step_depth_flat[OF assms] getCeiling_depth_flat[OF assms]
        split: sum.splits prod.splits)
qed

lemma descent_split:
  "depth p \<le> x \<Longrightarrow> descent p c t s = Inr (c1, t1, s1) \<Longrightarrow>
   descent (p\<lparr>depth := x\<rparr>) c t s = descent (p\<lparr>depth := x\<rparr>) c1 t1 s1"
proof (induction p c t s rule: descent.induct)
  case (1 p c t s)
  note unf = descent.simps[of p c t s] descent.simps[of "p\<lparr>depth := x\<rparr>" c t s]
  show ?case
  proof (cases "c < depth p")
    case True
    then have lt': "c < x" using "1.prems"(1) by simp
    show ?thesis
    proof (cases "update p c t False s")
      case (Inl e)
      then show ?thesis using "1.prems"(2) True unfolding unf by simp
    next
      case (Inr z)
      then have "descent p (c + 15.0 * dt) (t + dt) z = Inr (c1, t1, s1)"
        using "1.prems"(2) True unfolding unf by simp
      then show ?thesis
        using "1.IH"[OF True Inr "1.prems"(1)] Inr lt' unfolding unf by (simp add: update_depth)
    qed
  next
    case False
    then have "c1 = c \<and> t1 = t \<and> s1 = s" using "1.prems"(2) unfolding unf(1) by simp
    then show ?thesis by simp
  qed
qed

text \<open>
  The rest of a descent, from the depth \<open>c1\<close>: the consumption does not go down, and no
  compartment that is below the alveolar pressure at \<open>c1\<close> goes down.
\<close>

lemma descent_deeper:
  assumes fb: "0 \<le> fN2Bottom p" and sac: "0 \<le> sac p" and w: "wf_state s1" and c1: "0 \<le> c1"
    and nn: "\<forall>i<16. 0 \<le> tissues s1 ! i"
    and r: "descent p c1 t1 s1 = Inr (c2, t2, s2)"
  shows "wf_state s2 \<and> (\<forall>i<16. 0 \<le> tissues s2 ! i) \<and>
     log_cons (divelog s1) \<le> log_cons (divelog s2) \<and>
     ((\<forall>i<16. tissues s1 ! i \<le> (c1 / 10 + 1 - 0.0627) * fN2Bottom p) \<longrightarrow>
        (\<forall>i<16. tissues s1 ! i \<le> tissues s2 ! i))"
proof -
  define Q where "Q = (\<forall>i<16. tissues s1 ! i \<le> (c1 / 10 + 1 - 0.0627) * fN2Bottom p)"
  define I where "I = (\<lambda>(c::real) (t::real) (s::state). c1 \<le> c \<and> (\<forall>i<16. 0 \<le> tissues s ! i) \<and>
      log_cons (divelog s1) \<le> log_cons (divelog s) \<and>
      (Q \<longrightarrow> (\<forall>i<16. tissues s1 ! i \<le> tissues s ! i)))"
  have "\<exists>c' t' s'. descent p c1 t1 s1 = Inr (c', t', s') \<and> wf_state s' \<and> I c' t' s' \<and> \<not> c' < depth p"
  proof (rule descent_rule[OF w])
    show "I c1 t1 s1" using nn by (simp add: I_def)
    fix c t s
    assume i: "I c t s"
    have cc: "c1 \<le> c" and nz: "\<forall>i<16. 0 \<le> tissues s ! i"
      and cz: "log_cons (divelog s1) \<le> log_cons (divelog s)"
      and oz: "Q \<longrightarrow> (\<forall>i<16. tissues s1 ! i \<le> tissues s ! i)"
      using i by (simp_all add: I_def)
    define q where "q = (c / 10 + 1 - 0.0627) * fN2Bottom p"
    define z where "z = step_state p (fN2Bottom p) c t s"
    have c0: "0 \<le> c" using c1 cc by simp
    have q0: "0 \<le> q" using c0 fb by (simp add: q_def)
    have qq: "(c1 / 10 + 1 - 0.0627) * fN2Bottom p \<le> q"
      unfolding q_def using cc fb by (intro mult_right_mono) simp_all
    have tz: "tissues z ! i = decay q i (tissues s ! i)" if "i < 16" for i
      using that by (simp add: z_def tissues_step_state q_def)
    have n': "\<forall>i<16. 0 \<le> tissues z ! i" using nz q0 by (simp add: tz decay_ge)
    have o': "\<forall>i<16. tissues s1 ! i \<le> tissues z ! i" if h: "Q"
    proof (intro allI impI)
      fix i :: nat assume i16: "i < 16"
      have "tissues s1 ! i \<le> q" using h qq i16 unfolding Q_def by fastforce
      moreover have "tissues s1 ! i \<le> tissues s ! i" using oz h i16 by simp
      ultimately have "tissues s1 ! i \<le> decay q i (tissues s ! i)"
        using i16 by (intro decay_ge) simp_all
      then show "tissues s1 ! i \<le> tissues z ! i" by (simp add: tz i16)
    qed
    have "0 \<le> sac p * (c / 10 + 1) * dt"
      using sac c0 by (intro mult_nonneg_nonneg) (simp_all add: dt_def)
    then have c': "log_cons (divelog s1) \<le> log_cons (divelog z)"
      using cz by (simp add: z_def cons_step_state)
    show "I (c + 15 * dt) (t + dt) (step_state p (fN2Bottom p) c t s)"
      using cc n' o' c' unfolding I_def z_def[symmetric] by (simp add: dt_def)
  qed
  then show ?thesis using r unfolding I_def Q_def by auto
qed

text \<open>
  Two bottom loops with the same time left, the second at least as deep as the first and
  on the same gas: the second consumes more, by the difference of the depths at every
  pass, and the order of the compartments is kept.
\<close>

lemma bottom_lockstep:
  assumes "fN2Bottom p' = fN2Bottom p" and "sac p' = sac p" and "depth p \<le> depth p'"
    and "0 \<le> depth p" and "0 \<le> fN2Bottom p" and "0 \<le> sac p"
  shows "tEnd - t = tEnd' - t' \<Longrightarrow> wf_state s \<Longrightarrow> wf_state s' \<Longrightarrow>
     (\<forall>i<16. 0 \<le> tissues s ! i) \<Longrightarrow> (\<forall>i<16. 0 \<le> tissues s' ! i) \<Longrightarrow>
     (Q \<longrightarrow> (\<forall>i<16. tissues s ! i \<le> tissues s' ! i)) \<Longrightarrow>
     log_cons (divelog s) + g \<le> log_cons (divelog s') \<Longrightarrow>
     bottom p tEnd t s = Inr (t2, s2) \<Longrightarrow> bottom p' tEnd' t' s' = Inr (t2', s2') \<Longrightarrow>
     wf_state s2 \<and> wf_state s2' \<and> (\<forall>i<16. 0 \<le> tissues s2 ! i) \<and> (\<forall>i<16. 0 \<le> tissues s2' ! i) \<and>
     (Q \<longrightarrow> (\<forall>i<16. tissues s2 ! i \<le> tissues s2' ! i)) \<and>
     log_cons (divelog s2) + g
       + (if t < tEnd then sac p * ((depth p' - depth p) / 10) * dt else 0)
       \<le> log_cons (divelog s2')"
  using assms
proof (induction p tEnd t s arbitrary: t' s' g rule: bottom.induct)
  case (1 p tEnd t s)
  have fb': "fN2Bottom p' = fN2Bottom p" and sac': "sac p' = sac p"
    and dd: "depth p \<le> depth p'" and d0: "0 \<le> depth p" and fb: "0 \<le> fN2Bottom p"
    and sac: "0 \<le> sac p" and tt: "tEnd - t = tEnd' - t'"
    and w: "wf_state s" "wf_state s'"
    and nn: "\<forall>i<16. 0 \<le> tissues s ! i" "\<forall>i<16. 0 \<le> tissues s' ! i"
    and ord: "Q \<longrightarrow> (\<forall>i<16. tissues s ! i \<le> tissues s' ! i)"
    and cons: "log_cons (divelog s) + g \<le> log_cons (divelog s')"
    and r: "bottom p tEnd t s = Inr (t2, s2)" and r': "bottom p' tEnd' t' s' = Inr (t2', s2')"
    using "1.prems" by blast+
  note unf = bottom.simps[of p tEnd t s] bottom.simps[of p' tEnd' t' s']
  define \<delta> where "\<delta> = sac p * ((depth p' - depth p) / 10) * dt"
  have \<delta>0: "0 \<le> \<delta>" unfolding \<delta>_def using sac dd by (intro mult_nonneg_nonneg) (simp_all add: dt_def)
  show ?case
  proof (cases "t < tEnd")
    case True
    then have lt': "t' < tEnd'" using tt by simp
    define q where "q = (depth p / 10 + 1 - 0.0627) * fN2Bottom p"
    define q' where "q' = (depth p' / 10 + 1 - 0.0627) * fN2Bottom p"
    define z where "z = step_state p (fN2Bottom p) (depth p) t s"
    define z' where "z' = step_state p' (fN2Bottom p) (depth p') t' s'"
    have u: "update p (depth p) t False s = Inr z"
      by (simp add: update_False[OF w(1)] z_def)
    have u': "update p' (depth p') t' False s' = Inr z'"
      by (simp add: update_False[OF w(2)] z'_def fb')
    have rz: "bottom p tEnd (t + dt) z = Inr (t2, s2)"
      using r True u unfolding unf by simp
    have rz': "bottom p' tEnd' (t' + dt) z' = Inr (t2', s2')"
      using r' lt' u' unfolding unf by simp
    have q0: "0 \<le> q" using d0 fb by (simp add: q_def)
    have qq: "q \<le> q'" unfolding q_def q'_def using dd fb by (intro mult_right_mono) simp_all
    have tz: "tissues z ! i = decay q i (tissues s ! i)" if "i < 16" for i
      using that by (simp add: z_def tissues_step_state q_def)
    have tz': "tissues z' ! i = decay q' i (tissues s' ! i)" if "i < 16" for i
      using that by (simp add: z'_def tissues_step_state q'_def)
    have n1: "\<forall>i<16. 0 \<le> tissues z ! i" using nn(1) q0 by (simp add: tz decay_ge)
    have n1': "\<forall>i<16. 0 \<le> tissues z' ! i" using nn(2) q0 qq by (simp add: tz' decay_ge)
    have o1: "Q \<longrightarrow> (\<forall>i<16. tissues z ! i \<le> tissues z' ! i)"
      using ord qq by (simp add: tz tz' decay_mono)
    have "sac p * (depth p' / 10 + 1) * dt = sac p * (depth p / 10 + 1) * dt + \<delta>"
      by (simp add: \<delta>_def field_simps)
    then have c1: "log_cons (divelog z) + (g + \<delta>) \<le> log_cons (divelog z')"
      using cons by (simp add: z_def z'_def cons_step_state sac')
    have tt1: "tEnd - (t + dt) = tEnd' - (t' + dt)" using tt by simp
    have w1: "wf_state z" "wf_state z'" by (simp_all add: z_def z'_def wf_step_state)
    note ih = "1.IH"[OF True u tt1 w1 n1 n1' o1 c1 rz rz' fb' sac' dd d0 fb sac]
    have "log_cons (divelog s2) + (g + \<delta>) \<le> log_cons (divelog s2')"
      using ih \<delta>0 unfolding \<delta>_def[symmetric] by (simp split: if_splits)
    then show ?thesis using ih True unfolding \<delta>_def[symmetric] by simp
  next
    case False
    then have nl': "\<not> t' < tEnd'" using tt by simp
    have "t2 = t \<and> s2 = s" using r False unfolding unf(1) by simp
    moreover have "t2' = t' \<and> s2' = s'" using r' nl' unfolding unf(2) by simp
    ultimately show ?thesis using False w nn ord cons by simp
  qed
qed

lemma depth_monotone:
  assumes og: "ordered_gases p" and flat: "gfLow p = gfHigh p" and le: "depth p \<le> D'"
    and r: "run n (p\<lparr>depth := D'\<rparr>) = Some (Inr L')"
  shows "\<exists>L. run n p = Some (Inr L) \<and> log_cons L \<le> log_cons L' \<and>
     (0 < bottomTime p \<longrightarrow>
        log_cons L + sac p * ((D' - depth p) / 10) * dt \<le> log_cons L')"
proof -
  define p' where "p' = p\<lparr>depth := D'\<rparr>"
  define PB where "PB = (depth p / 10 + 1 - 0.0627) * fN2Bottom p"
  define g where "g = (if 0 < bottomTime p then sac p * ((D' - depth p) / 10) * dt else 0)"
  have D: "0 < depth p" and sac: "0 \<le> sac p" and fb: "0 \<le> fN2Bottom p"
    using og by (simp_all add: ordered_gases_def)
  have D': "D' \<noteq> 0" "depth p \<noteq> 0" using D le by simp_all
  have f': "fN2Bottom p' = fN2Bottom p" "sac p' = sac p" "depth p' = D'" "bottomTime p' = bottomTime p"
    by (simp_all add: p'_def)
  have g0: "0 \<le> g" unfolding g_def using sac le by (simp add: dt_def)
  from r obtain f' where rs: "run_state n p' = Some (Inr f')" and L': "L' = divelog f'"
    unfolding p'_def using run_Inr by blast
  from rs obtain c1' t1' s1' u2' z2' where
    d': "descent p' 0 0 init_state = Inr (c1', t1', s1')" and
    b': "bottom p' (t1' + bottomTime p') t1' s1' = Inr (u2', z2')" and
    a': "ascent n p' (depth p') u2' z2' = Some (Inr f')"
    by (rule run_state_cases)
  have a3: "ascent n p D' u2' z2' = Some (Inr f')"
    using a' unfolding p'_def by (simp add: ascent_depth_flat[OF flat D'(2,1)])
  have "\<exists>c1 t1 s1. descent p 0 0 init_state = Inr (c1, t1, s1) \<and> wf_state s1 \<and> (0 \<le> c1) \<and>
      \<not> c1 < depth p"
    by (rule descent_rule[OF wf_init_state]) (simp_all add: dt_def)
  then obtain c1 t1 s1 where d: "descent p 0 0 init_state = Inr (c1, t1, s1)"
    and c1: "0 \<le> c1" "depth p \<le> c1" by fastforce
  have 1: "wf_state s1" "tissues_in 0 (tissue_bound p) s1"
    using descent_tissues_in[OF og d] by simp_all
  have nn1: "\<forall>i<16. 0 \<le> tissues s1 ! i" using 1(2) by (simp add: tissues_in_def)
  have "descent p' 0 0 init_state = descent p' c1 t1 s1"
    unfolding p'_def using le d by (rule descent_split)
  then have d2: "descent p' c1 t1 s1 = Inr (c1', t1', s1')" using d' by simp
  note dd = descent_deeper[OF _ _ 1(1) c1(1) nn1 d2, unfolded f', OF fb sac]
  have "\<exists>u2 z2. bottom p (t1 + bottomTime p) t1 s1 = Inr (u2, z2) \<and> wf_state z2 \<and> True \<and>
      \<not> u2 < t1 + bottomTime p"
    by (rule bottom_rule[OF 1(1)]) simp_all
  then obtain u2 z2 where b: "bottom p (t1 + bottomTime p) t1 s1 = Inr (u2, z2)" by blast
  have 2: "wf_state z2" "tissues_in 0 (tissue_bound p) z2"
    using bottom_tissues_in[OF og 1 b] by simp_all
  have o1: "79/100 \<le> PB \<longrightarrow> (\<forall>i<16. tissues s1 ! i \<le> tissues s1' ! i)"
  proof
    assume h: "79/100 \<le> PB"
    then have "tissue_bound p = PB" by (simp add: tissue_bound_def PB_def)
    moreover have "PB \<le> (c1 / 10 + 1 - 0.0627) * fN2Bottom p"
      unfolding PB_def using c1(2) fb by (intro mult_right_mono) simp_all
    ultimately have "\<forall>i<16. tissues s1 ! i \<le> (c1 / 10 + 1 - 0.0627) * fN2Bottom p"
      using 1(2) unfolding tissues_in_def by fastforce
    then show "\<forall>i<16. tissues s1 ! i \<le> tissues s1' ! i" using dd by blast
  qed
  have c0: "log_cons (divelog s1) + 0 \<le> log_cons (divelog s1')" using dd by simp
  have tt: "(t1 + bottomTime p) - t1 = (t1' + bottomTime p') - t1'" by (simp add: f')
  have dle: "depth p \<le> depth p'" "0 \<le> depth p" using le D by (simp_all add: f')
  have w1': "wf_state s1'" and nn1': "\<forall>i<16. 0 \<le> tissues s1' ! i" using dd by simp_all
  note bl = bottom_lockstep[OF f'(1,2) dle fb sac tt 1(1) w1' nn1 nn1' o1 c0 b b']
  have c23: "log_cons (divelog z2) + g \<le> log_cons (divelog z2')"
    using bl by (simp add: g_def f' split: if_splits)
  have ord: "(\<forall>i<16. tissues z2 ! i \<le> tissues z2' ! i) \<or>
      (PB \<le> 1 \<and> depth p \<le> depth p \<and> (\<forall>i<16. tissues z2 ! i \<le> 1))"
  proof (cases "79/100 \<le> PB")
    case True
    then show ?thesis using bl by simp
  next
    case False
    then have "tissue_bound p \<le> 1" by (simp add: tissue_bound_def PB_def)
    then have "\<forall>i<16. tissues z2 ! i \<le> 1" using 2(2) unfolding tissues_in_def by fastforce
    then show ?thesis using False by simp
  qed
  have dom: "dominated p g (depth p) z2 D' z2'"
    unfolding dominated_def using 2(1) bl D le flat ord c23
    by (simp add: PB_def)
  from ascent_dominated[OF og dom a3] obtain f where
    a2: "ascent n p (depth p) u2 z2 = Some (Inr f)" and
    cf: "log_cons (divelog f) + g \<le> log_cons (divelog f')" by blast
  have "run_state n p = Some (Inr f)"
    using d b a2 by (simp add: run_state_def Let_def)
  then have "run n p = Some (Inr (divelog f))" by (simp add: run_def)
  moreover have "log_cons (divelog f) \<le> log_cons L'" using cf g0 L' by simp
  moreover have "0 < bottomTime p \<longrightarrow>
      log_cons (divelog f) + sac p * ((D' - depth p) / 10) * dt \<le> log_cons L'"
    using cf L' by (auto simp: g_def)
  ultimately show ?thesis by blast
qed

subsection \<open>Dives without a stop\<close>

lemma direct_ascent_returns:
  assumes og: "ordered_gases p" and b1: "tissue_bound p \<le> 1"
  shows "wf_state s \<Longrightarrow> tissues_in 0 (tissue_bound p) s \<Longrightarrow> c \<le> depth p \<Longrightarrow>
     c \<le> real n * (vUp p * dt) \<Longrightarrow> \<exists>f. ascent n p c t s = Some (Inr f)"
proof (induction n arbitrary: c t s)
  case 0
  then have "\<not> c > 0" by simp
  then show ?case by (simp add: ascent_nonpos)
next
  case (Suc m)
  have D: "0 < depth p" and vup: "0 \<le> vUp p" and gl: "0 \<le> gfLow p"
    and glh: "gfLow p \<le> gfHigh p" and fd: "0 \<le> fN2Deco p" and fdb: "fN2Deco p \<le> fN2Bottom p"
    and o2: "fO2Deco p \<noteq> 0"
    using og by (simp_all add: ordered_gases_def)
  show ?case
  proof (cases "c > 0")
    case False
    then show ?thesis by (simp add: ascent_nonpos)
  next
    case True
    have dz: "depth p \<noteq> 0" using D by simp
    have gf: "0 \<le> currentGf p c"
      using currentGf_between[OF True Suc.prems(3) glh] gl by simp
    have "\<forall>i<16. tissues s ! i \<le> 1"
      using Suc.prems(2) b1 unfolding tissues_in_def by fastforce
    then have ce: "getCeiling p s c = Inr 0" by (rule getCeiling_zero[OF dz gf])
    define v where "v = vUp p * dt"
    have v0: "0 \<le> v" using vup by (simp add: v_def dt_def)
    define c1 where "c1 = ascent_move p c (nextStop 0)"
    have c1e: "c1 = (if c - v < 0 then 0 else c - v)"
      using True by (simp add: c1_def nextStop_0 ascent_move_def Let_def v_def)
    have "real (Suc m) * v = real m * v + v" by (simp add: algebra_simps)
    then have cm: "c - v \<le> real m * v" using Suc.prems(4) by (simp add: v_def)
    have mv: "0 \<le> real m * v" using v0 by simp
    have c1b: "0 \<le> c1" "c1 \<le> depth p" "c1 \<le> real m * (vUp p * dt)"
      using Suc.prems(3) True v0 cm mv unfolding c1e v_def[symmetric] by simp_all
    from activeN2_ordered[OF o2 fdb, of c1 c1] obtain f where
      f: "activeN2 p c1 True = Inr f" "fN2Deco p \<le> f" "f \<le> fN2Bottom p" by auto
    define s1 where "s1 = step_state p f c1 t s"
    have st: "ascent_step p c t s = Inr (c1, s1)"
      by (simp add: ascent_step_closed[OF Suc.prems(1)] ce c1_def[symmetric] f s1_def)
    have "0 \<le> (c1 / 10 + 1 - 0.0627) * f \<and> (c1 / 10 + 1 - 0.0627) * f \<le> tissue_bound p"
      using c1b f fd by (intro alveolar_le_bound) simp_all
    then have b: "tissues_in 0 (tissue_bound p) s1"
      unfolding s1_def using Suc.prems(2) by (intro tissues_in_step) simp_all
    have w: "wf_state s1" by (simp add: s1_def wf_step_state)
    obtain c0 where c0: "getCeiling p s1 0 = Inr c0" using getCeiling_surface_Inr[OF og] by blast
    from Suc.IH[OF w b c1b(2,3)] obtain f' where "ascent m p c1 (t + dt) s1 = Some (Inr f')"
      by blast
    then show ?thesis by (simp add: ascent_Suc[OF True st c0])
  qed
qed

lemma run_returns:
  assumes og: "ordered_gases p" and b1: "tissue_bound p \<le> 1"
    and n: "depth p \<le> real n * (vUp p * dt)"
  shows "\<exists>L. run n p = Some (Inr L)"
proof -
  have "\<exists>c1 t1 s1. descent p 0 0 init_state = Inr (c1, t1, s1) \<and> wf_state s1 \<and> True \<and>
      \<not> c1 < depth p"
    by (rule descent_rule[OF wf_init_state]) simp_all
  then obtain c1 t1 s1 where d: "descent p 0 0 init_state = Inr (c1, t1, s1)" by blast
  have 1: "wf_state s1" "tissues_in 0 (tissue_bound p) s1"
    using descent_tissues_in[OF og d] by simp_all
  have "\<exists>t2 s2. bottom p (t1 + bottomTime p) t1 s1 = Inr (t2, s2) \<and> wf_state s2 \<and> True \<and>
      \<not> t2 < t1 + bottomTime p"
    by (rule bottom_rule[OF 1(1)]) simp_all
  then obtain t2 s2 where b: "bottom p (t1 + bottomTime p) t1 s1 = Inr (t2, s2)" by blast
  have 2: "wf_state s2" "tissues_in 0 (tissue_bound p) s2"
    using bottom_tissues_in[OF og 1 b] by simp_all
  from direct_ascent_returns[OF og b1 2 _ n] obtain f where
    "ascent n p (depth p) t2 s2 = Some (Inr f)" by auto
  then have "run_state n p = Some (Inr f)"
    using d b by (simp add: run_state_def Let_def)
  then show ?thesis by (simp add: run_def)
qed

lemma flat_planner_fields:
  "depth flat_planner = 1" "bottomTime flat_planner = 3/10" "vUp flat_planner = 10"
  "sac flat_planner = 19" "gfLow flat_planner = 7/10" "gfHigh flat_planner = 7/10"
  "fO2Bottom flat_planner = 21/100" "fN2Bottom flat_planner = 79/100"
  "fO2Deco flat_planner = 21/100" "fN2Deco flat_planner = 79/100"
  by (simp_all add: flat_planner_def constructor_def Let_def)

text \<open>
  Claim C10, as corrected. Every call of \<open>update\<close> adds \<open>sac * pAmb * dt\<close> to the
  consumption, with \<open>pAmb = d / 10 + 1\<close> and \<open>dt = 0.1\<close>, so the consumption of a returned
  log is \<open>sac * 0.1\<close> times the sum of \<open>d / 10 + 1\<close> over the logged depths.

  Take a planner with \<open>ordered_gases\<close>, and a second one that differs from it in the bottom
  time only, which is longer. If the gradient factors are equal, or no stop can be deeper
  than the dive (\<open>stops_above_bottom\<close>), then whenever the run of the second returns, so
  does the run of the first, and it has not consumed more. It has consumed less when the
  second bottom time is longer by two steps of the clock or more. (Over the reals one
  step is enough; the statement takes two, so that it does not depend on the number of
  passes that the bottom loop makes with the rounded clock of the source.)

  Take a planner with \<open>ordered_gases\<close> and equal gradient factors, and a second one that
  differs from it in the target depth only, which is deeper. Whenever the run of the second
  returns, so does the run of the first, and it has not consumed more; it has consumed
  less when the second depth is strictly deeper and the bottom time is two steps of the
  clock or more. (Over the reals any positive bottom time is enough, since both bottom
  loops then make the same number of passes, at least one.)
\<close>

theorem consumption_sum_of_samples:
  "(wf_state s \<and> update p d t isDeco s = Inr s' \<longrightarrow>
      log_cons (divelog s') = log_cons (divelog s) + sac p * (d / 10 + 1) * 0.1) \<and>
   (run n p = Some (Inr L) \<longrightarrow>
      log_cons L = sac p * 0.1 * sum_list (map (\<lambda>d. d / 10 + 1) (log_depth L))) \<and>
   (ordered_gases p \<and> (gfLow p = gfHigh p \<or> stops_above_bottom p) \<and> bottomTime p \<le> bt' \<and>
    run n (p\<lparr>bottomTime := bt'\<rparr>) = Some (Inr L') \<longrightarrow>
      (\<exists>M. run n p = Some (Inr M) \<and> log_cons M \<le> log_cons L' \<and>
         (0 < sac p \<and> 0 \<le> bottomTime p \<and> bottomTime p + 0.2 \<le> bt' \<longrightarrow>
            log_cons M < log_cons L'))) \<and>
   (ordered_gases p \<and> gfLow p = gfHigh p \<and> depth p \<le> D' \<and>
    run n (p\<lparr>depth := D'\<rparr>) = Some (Inr L') \<longrightarrow>
      (\<exists>M. run n p = Some (Inr M) \<and> log_cons M \<le> log_cons L' \<and>
         (0 < sac p \<and> 0.2 \<le> bottomTime p \<and> depth p < D' \<longrightarrow> log_cons M < log_cons L')))"
proof -
  have 1: "wf_state s \<and> update p d t isDeco s = Inr s' \<longrightarrow>
      log_cons (divelog s') = log_cons (divelog s) + sac p * (d / 10 + 1) * 0.1"
    by (auto simp: update_eq cons_step_state dt_def split: sum.splits)
  have 2: "run n p = Some (Inr L) \<longrightarrow>
      log_cons L = sac p * 0.1 * sum_list (map (\<lambda>d. d / 10 + 1) (log_depth L))"
    using run_Inr[of n p L] cons_run[of n p] by (auto simp: dt_def)
  have 3: "\<exists>M. run n p = Some (Inr M) \<and> log_cons M \<le> log_cons L' \<and>
         (0 < sac p \<and> 0 \<le> bottomTime p \<and> bottomTime p + 0.2 \<le> bt' \<longrightarrow>
            log_cons M < log_cons L')"
    if h: "ordered_gases p" "gfLow p = gfHigh p \<or> stops_above_bottom p" "bottomTime p \<le> bt'"
      "run n (p\<lparr>bottomTime := bt'\<rparr>) = Some (Inr L')"
  proof -
    from bottom_time_monotone[OF h] obtain M where
      M: "run n p = Some (Inr M)" "log_cons M \<le> log_cons L'"
      "0 \<le> bottomTime p \<and> bottomTime p + dt \<le> bt' \<longrightarrow>
        log_cons M + sac p * (depth p / 10 + 1) * dt \<le> log_cons L'" by blast
    have D: "0 < depth p" using h(1) by (simp add: ordered_gases_def)
    have "log_cons M < log_cons L'"
      if s: "0 < sac p" "0 \<le> bottomTime p" "bottomTime p + 0.2 \<le> bt'"
    proof -
      have "bottomTime p + dt \<le> bt'" using s(3) by (simp add: dt_def)
      then have "log_cons M + sac p * (depth p / 10 + 1) * dt \<le> log_cons L'"
        using M(3) s(2) by blast
      moreover have "0 < sac p * (depth p / 10 + 1) * dt"
        using s(1) D by (intro mult_pos_pos) (simp_all add: dt_def)
      ultimately show ?thesis by simp
    qed
    then show ?thesis using M(1,2) by blast
  qed
  have 4: "\<exists>M. run n p = Some (Inr M) \<and> log_cons M \<le> log_cons L' \<and>
         (0 < sac p \<and> 0.2 \<le> bottomTime p \<and> depth p < D' \<longrightarrow> log_cons M < log_cons L')"
    if h: "ordered_gases p" "gfLow p = gfHigh p" "depth p \<le> D'"
      "run n (p\<lparr>depth := D'\<rparr>) = Some (Inr L')"
  proof -
    from depth_monotone[OF h] obtain M where
      M: "run n p = Some (Inr M)" "log_cons M \<le> log_cons L'"
      "0 < bottomTime p \<longrightarrow> log_cons M + sac p * ((D' - depth p) / 10) * dt \<le> log_cons L'"
      by blast
    have "log_cons M < log_cons L'" if s: "0 < sac p" "0.2 \<le> bottomTime p" "depth p < D'"
    proof -
      have "0 < bottomTime p" using s(2) by simp
      then have "log_cons M + sac p * ((D' - depth p) / 10) * dt \<le> log_cons L'"
        using M(3) by blast
      moreover have "0 < sac p * ((D' - depth p) / 10) * dt"
        using s(1,3) by (intro mult_pos_pos) (simp_all add: dt_def)
      ultimately show ?thesis by simp
    qed
    then show ?thesis using M(1,2) by blast
  qed
  show ?thesis using 1 2 3 4 by blast
qed


lemma small_regime: "ordered_gases small_planner" "stops_above_bottom small_planner"
  "tissue_bound small_planner \<le> 1"
  by (simp_all add: ordered_gases_def stops_above_bottom_def tissue_bound_def small_planner_fields)

lemma flat_regime: "ordered_gases flat_planner" "gfLow flat_planner = gfHigh flat_planner"
  by (simp_all add: ordered_gases_def flat_planner_fields)

lemma example_regime: "ordered_gases example_planner" "stops_above_bottom example_planner"
  by (simp_all add: ordered_gases_def stops_above_bottom_def tissue_bound_def
      example_planner_fields)

text \<open>
  The first call of \<open>update\<close> and the run of \<open>small_planner\<close>; that run and the run with a
  bottom time of 0.3 min instead of 0.1 min; the run of \<open>flat_planner\<close> (1 m for 0.3 min)
  and the run to 2 m instead of 1 m. The planner of the calling layer (40 m, 20 min, gradient factors 30 and
  70) has \<open>ordered_gases\<close> and \<open>stops_above_bottom\<close> too.
\<close>

theorem consumption_sum_of_samples_witness:
  "wf_state init_state \<and>
   update small_planner 0 0 False init_state
     = Inr (step_state small_planner (79/100) 0 0 init_state) \<and>
   log_cons (divelog (step_state small_planner (79/100) 0 0 init_state))
     = log_cons (divelog init_state) + sac small_planner * (0 / 10 + 1) * 0.1 \<and>
   run 1 small_planner = Some (Inr (divelog (shallow_s3 small_planner))) \<and>
   log_cons (divelog (shallow_s3 small_planner))
     = sac small_planner * 0.1 *
         sum_list (map (\<lambda>d. d / 10 + 1) (log_depth (divelog (shallow_s3 small_planner)))) \<and>
   ordered_gases small_planner \<and> stops_above_bottom small_planner \<and>
   bottomTime small_planner \<le> 3/10 \<and> 0 < sac small_planner \<and> 0 \<le> bottomTime small_planner \<and>
   bottomTime small_planner + 0.2 \<le> 3/10 \<and>
   (\<exists>L' M. run 1 (small_planner\<lparr>bottomTime := 3/10\<rparr>) = Some (Inr L') \<and>
      run 1 small_planner = Some (Inr M) \<and> log_cons M \<le> log_cons L' \<and> log_cons M < log_cons L') \<and>
   ordered_gases flat_planner \<and> gfLow flat_planner = gfHigh flat_planner \<and>
   depth flat_planner \<le> 2 \<and> 0 < sac flat_planner \<and> 0.2 \<le> bottomTime flat_planner \<and>
   depth flat_planner < 2 \<and>
   (\<exists>L' M. run 2 (flat_planner\<lparr>depth := 2\<rparr>) = Some (Inr L') \<and>
      run 2 flat_planner = Some (Inr M) \<and> log_cons M \<le> log_cons L' \<and> log_cons M < log_cons L') \<and>
   ordered_gases example_planner \<and> stops_above_bottom example_planner"
proof -
  have u: "update small_planner 0 0 False init_state
     = Inr (step_state small_planner (79/100) 0 0 init_state)"
    using update_False[OF wf_init_state, of small_planner 0 0] by (simp add: small_planner_fields)
  have r: "run 1 small_planner = Some (Inr (divelog (shallow_s3 small_planner)))"
    by (rule shallow_run[OF small_shallow])
  have 1: "log_cons (divelog (step_state small_planner (79/100) 0 0 init_state))
     = log_cons (divelog init_state) + sac small_planner * (0 / 10 + 1) * 0.1"
    using consumption_sum_of_samples[of init_state small_planner 0 0 False
        "step_state small_planner (79/100) 0 0 init_state"] wf_init_state u by blast
  have 2: "log_cons (divelog (shallow_s3 small_planner))
     = sac small_planner * 0.1 *
         sum_list (map (\<lambda>d. d / 10 + 1) (log_depth (divelog (shallow_s3 small_planner))))"
    using consumption_sum_of_samples[of _ small_planner _ _ _ _ 1
        "divelog (shallow_s3 small_planner)"] r by blast
  have b: "bottomTime small_planner \<le> 3/10" "0 < sac small_planner"
    "0 \<le> bottomTime small_planner" "bottomTime small_planner + 0.2 \<le> 3/10"
    by (simp_all add: small_planner_fields)
  have "\<exists>L'. run 1 (small_planner\<lparr>bottomTime := 3/10\<rparr>) = Some (Inr L')"
    by (rule run_returns)
       (simp_all add: ordered_gases_def tissue_bound_def small_planner_fields dt_def)
  then obtain L1 where L1: "run 1 (small_planner\<lparr>bottomTime := 3/10\<rparr>) = Some (Inr L1)" by blast
  have 3: "\<exists>L' M. run 1 (small_planner\<lparr>bottomTime := 3/10\<rparr>) = Some (Inr L') \<and>
      run 1 small_planner = Some (Inr M) \<and> log_cons M \<le> log_cons L' \<and> log_cons M < log_cons L'"
    using consumption_sum_of_samples[where p = small_planner and bt' = "3/10" and n = 1 and L' = L1]
      small_regime(1,2) b L1 by blast
  have f: "depth flat_planner \<le> 2" "0 < sac flat_planner" "0.2 \<le> bottomTime flat_planner"
    "depth flat_planner < 2"
    by (simp_all add: flat_planner_fields)
  have "\<exists>L'. run 2 (flat_planner\<lparr>depth := 2\<rparr>) = Some (Inr L')"
    by (rule run_returns)
       (simp_all add: ordered_gases_def tissue_bound_def flat_planner_fields dt_def)
  then obtain L2 where L2: "run 2 (flat_planner\<lparr>depth := 2\<rparr>) = Some (Inr L2)" by blast
  have 4: "\<exists>L' M. run 2 (flat_planner\<lparr>depth := 2\<rparr>) = Some (Inr L') \<and>
      run 2 flat_planner = Some (Inr M) \<and> log_cons M \<le> log_cons L' \<and> log_cons M < log_cons L'"
    using consumption_sum_of_samples[where p = flat_planner and D' = 2 and n = 2 and L' = L2]
      flat_regime f L2 by blast
  show ?thesis
    using wf_init_state u r 1 2 3 4 b f small_regime(1,2) flat_regime example_regime
    by (intro conjI) assumption+
qed

text \<open>
  Claim C10 as stated. The first two dives differ in the bottom time only, 0.05 min and
  0.1 min; both are valid and both return, with the same consumption of 5.89. The last two
  differ in the target depth only, 1.2 m and 1.3 m; both are valid and both return. The
  ascent of the first goes from its stop at 3 m, where the gradient factor is \<open>-1.01\<close>, to
  a stop deeper than 2292 m, and its one sample there adds more than 437 to the
  consumption; the ascent of the second goes from 3 m, where the gradient factor is
  \<open>-0.88\<close>, to a stop no deeper than 179 m, and the whole run consumes less than 387: the
  deeper dive consumes less.
\<close>

theorem consumption_not_increasing_counterexample:
  "valid_parameters 1 (1/20) 10 19.0 15 200 30 70 21 None \<and>
   valid_parameters 1 (1/10) 10 19.0 15 200 30 70 21 None \<and>
   half_planner = constructor 1 (1/20) 10 19.0 15 200 30 70 21 None \<and>
   small_planner = constructor 1 (1/10) 10 19.0 15 200 30 70 21 None \<and>
   (1/20::real) < 1/10 \<and>
   run 1 half_planner = Some (Inr (divelog (shallow_s3 half_planner))) \<and>
   run 1 small_planner = Some (Inr (divelog (shallow_s3 small_planner))) \<and>
   log_cons (divelog (shallow_s3 half_planner)) = 589/100 \<and>
   log_cons (divelog (shallow_s3 small_planner)) = 589/100 \<and>
   valid_parameters (6/5) 16 100000 19.0 15 200 1 69 1 None \<and>
   valid_parameters (13/10) 16 100000 19.0 15 200 1 69 1 None \<and>
   surface_planner = constructor (6/5) 16 100000 19.0 15 200 1 69 1 None \<and>
   deeper_planner = constructor (13/10) 16 100000 19.0 15 200 1 69 1 None \<and>
   (6/5::real) < 13/10 \<and>
   (\<exists>L L'. run 3 surface_planner = Some (Inr L) \<and> run 3 deeper_planner = Some (Inr L') \<and>
      437 \<le> log_cons L \<and> log_cons L' \<le> 387 \<and> log_cons L' < log_cons L)"
proof -
  have v: "valid_parameters 1 (1/20) 10 19.0 15 200 30 70 21 None"
    "valid_parameters 1 (1/10) 10 19.0 15 200 30 70 21 None"
    "valid_parameters (6/5) 16 100000 19.0 15 200 1 69 1 None"
    "valid_parameters (13/10) 16 100000 19.0 15 200 1 69 1 None"
    by (simp_all add: valid_parameters_def)
  have d: "half_planner = constructor 1 (1/20) 10 19.0 15 200 30 70 21 None"
    "small_planner = constructor 1 (1/10) 10 19.0 15 200 30 70 21 None"
    "surface_planner = constructor (6/5) 16 100000 19.0 15 200 1 69 1 None"
    "deeper_planner = constructor (13/10) 16 100000 19.0 15 200 1 69 1 None"
    by (simp_all add: half_planner_def small_planner_def surface_planner_def deeper_planner_def)
  have c: "log_cons (divelog (shallow_s3 half_planner)) = 589/100"
    "log_cons (divelog (shallow_s3 small_planner)) = 589/100"
    by (simp_all add: shallow_log half_planner_fields small_planner_fields)
  have l: "(1/20::real) < 1/10" "(6/5::real) < 13/10" by simp_all
  from surface_cons obtain s where
    s: "run_state 3 surface_planner = Some (Inr s)" "437 \<le> log_cons (divelog s)" by blast
  from deeper_cons obtain s' where
    s': "run_state 3 deeper_planner = Some (Inr s')" "log_cons (divelog s') \<le> 387" by blast
  have r: "run 3 surface_planner = Some (Inr (divelog s))"
    "run 3 deeper_planner = Some (Inr (divelog s'))"
    using s(1) s'(1) by (simp_all add: run_def)
  have lt: "log_cons (divelog s') < log_cons (divelog s)" using s(2) s'(2) by simp
  have e: "\<exists>L L'. run 3 surface_planner = Some (Inr L) \<and> run 3 deeper_planner = Some (Inr L') \<and>
      437 \<le> log_cons L \<and> log_cons L' \<le> 387 \<and> log_cons L' < log_cons L"
    using r s(2) s'(2) lt by blast
  show ?thesis
    using v d c l e shallow_run[OF half_shallow] shallow_run[OF small_shallow]
    by (intro conjI) assumption+
qed

end
